theory Spec2Isabelle
  imports Main "HOL-Library.AList" "HOL-Library.Sublist"
begin

section \<open>The in-memory filesystem of \<^verbatim>\<open>fs/memoryfs.py\<close>\<close>

text \<open>
  The Python objects are embedded as follows.
  \<^item> A \<^verbatim>\<open>DirEntry\<close> is a tree node: its scalar attributes form the record
    \<open>entry_attrs\<close>, its \<^verbatim>\<open>contents\<close> dictionary is an association list from names to
    child nodes, \<open>None\<close> for a file exactly as in the source.  Every node is owned
    by one parent dictionary, so mutating "the object a path resolves to" is a
    functional update of the tree at that path (\<open>modify_entry\<close>).  The field
    \<open>ident\<close> stands for the identity of the Python object.
  \<^item> A \<^verbatim>\<open>MemoryFile\<close> lives in a store indexed by handle identities; the list
    \<^verbatim>\<open>open_files\<close> of a node holds such identities, and a handle refers to its node
    only through its recorded path, as in the source.
  \<^item> An operation returns its outcome together with the state it leaves behind, because
    an exception raised half-way keeps the mutations already made.
\<close>

subsection \<open>Errors\<close>

datatype error =
    ResourceNotFoundError | ResourceInvalidError | ResourceLockedError
  | DestinationExistsError | ParentDirectoryMissingError | DirectoryNotEmptyError
  | PathError
  | AssertionError | AttributeError | KeyError | ValueError | TypeError
  | NoSuchHandle

text \<open>
  The first seven are the errors of \<^verbatim>\<open>fs.errors\<close> that the source raises; the next five
  are the Python exceptions that escape from it (a failed \<^verbatim>\<open>assert\<close>, an attribute or
  item access on \<^verbatim>\<open>None\<close>, a missing key, \<^verbatim>\<open>list.remove\<close> of an absent element and
  I/O on a closed buffer).  \<open>NoSuchHandle\<close> is the outcome of a method call on an
  identity that names no handle object; no such call exists in Python.
\<close>

subsection \<open>Paths\<close>

text \<open>
  Modelled from the spec: the helpers \<^verbatim>\<open>iteratepath\<close>, \<^verbatim>\<open>pathsplit\<close> and \<^verbatim>\<open>normpath\<close>
  of \<^verbatim>\<open>fs.path\<close> are imported by the source but are not part of it.  The spec gives
  them as \<open>components(path)\<close> (the ordered sequence of names), \<open>split(path)\<close>
  (parent and leaf name) and \<open>normalize(path)\<close>.  A path is held in normalized form
  as its sequence of names; the root is the empty sequence, whose split is the root
  itself and the empty name.
\<close>

type_synonym path = "string list"

definition iteratepath :: "path \<Rightarrow> string list" where
  "iteratepath p = p"

definition normpath :: "path \<Rightarrow> path" where
  "normpath p = p"

definition pathsplit :: "path \<Rightarrow> path \<times> string" where
  "pathsplit p = (if p = [] then ([], []) else (butlast p, last p))"

subsection \<open>StringIO\<close>

text \<open>
  The buffer object of the standard library, with the operations the handle uses:
  a byte string, a position, and a closed flag.  Writing at the position overwrites
  and extends; a position beyond the end is padded with NUL bytes.
\<close>

record StringIO =
  buf :: string
  pos :: nat
  sio_closed :: bool

definition StringIO_new :: "string \<Rightarrow> StringIO" where
  "StringIO_new value = \<lparr>buf = value, pos = 0, sio_closed = False\<rparr>"

definition sio_write :: "StringIO \<Rightarrow> string \<Rightarrow> error + StringIO" where
  "sio_write s d =
     (if sio_closed s then Inl ValueError
      else if d = [] then Inr s
      else Inr (s\<lparr>buf := take (pos s) (buf s @ replicate (pos s - length (buf s)) (CHR 0x00))
                          @ d @ drop (pos s + length d) (buf s),
                  pos := pos s + length d\<rparr>))"

definition sio_seek :: "StringIO \<Rightarrow> nat \<Rightarrow> error + StringIO" where
  "sio_seek s n = (if sio_closed s then Inl ValueError else Inr (s\<lparr>pos := n\<rparr>))"

definition sio_read :: "StringIO \<Rightarrow> int \<Rightarrow> error + (string \<times> StringIO)" where
  "sio_read s n =
     (if sio_closed s then Inl ValueError
      else let newpos = (if n < 0 then length (buf s)
                         else min (pos s + nat n) (length (buf s)))
           in Inr (take (newpos - pos s) (drop (pos s) (buf s)), s\<lparr>pos := newpos\<rparr>))"

definition sio_getvalue :: "StringIO \<Rightarrow> error + string" where
  "sio_getvalue s = (if sio_closed s then Inl ValueError else Inr (buf s))"

definition sio_close :: "StringIO \<Rightarrow> StringIO" where
  "sio_close s = s\<lparr>sio_closed := True\<rparr>"

subsection \<open>MemoryFile\<close>

definition check_mode :: "string \<Rightarrow> string \<Rightarrow> bool" where
  "check_mode mode mode_chars = list_all (\<lambda>c. c \<in> set mode) mode_chars"

record MemoryFile =
  closed :: bool
  path :: path
  mode :: string
  mem_file :: StringIO

text \<open>\<^verbatim>\<open>MemoryFile.__init__\<close>: \<open>value\<close> is the node's data, \<open>None\<close> standing for \<open>''\<close>.\<close>

definition seeded :: "string \<Rightarrow> StringIO" where
  "seeded v = (StringIO_new [])\<lparr>buf := v, pos := length v\<rparr>"

definition MemoryFile_init :: "path \<Rightarrow> string option \<Rightarrow> string \<Rightarrow> MemoryFile" where
  "MemoryFile_init p value0 m =
     (let v = (case value0 of None \<Rightarrow> [] | Some x \<Rightarrow> x) in
      \<lparr>closed = False, path = p, mode = m,
       mem_file =
         (if CHR ''+'' \<in> set m then (seeded v)\<lparr>pos := 0\<rparr>
          else if check_mode m ''wa'' then seeded v
          else if check_mode m ''w'' then StringIO_new []
          else if check_mode m ''ra'' then seeded v
          else if check_mode m ''r'' then StringIO_new v
          else if check_mode m ''a'' then seeded v
          else StringIO_new v)\<rparr>)"

subsection \<open>DirEntry\<close>

datatype entry_type = Dir | File

record entry_attrs =
  ident :: nat
  etype :: entry_type
  name :: string
  open_files :: "nat list"
  data :: "string option"
  locks :: int
  created_time :: nat
  modified_time :: nat
  accessed_time :: nat
  xattrs :: "(string \<times> string) list"

datatype DirEntry =
  DirEntry (attrs: entry_attrs) (contents: "(string \<times> DirEntry) list option")

definition isdir_entry :: "DirEntry \<Rightarrow> bool" where
  "isdir_entry e = (etype (attrs e) = Dir)"

definition isfile_entry :: "DirEntry \<Rightarrow> bool" where
  "isfile_entry e = (etype (attrs e) = File)"

definition islocked :: "DirEntry \<Rightarrow> bool" where
  "islocked e = (locks (attrs e) > 0)"

text \<open>\<^verbatim>\<open>DirEntry.__init__(type, name)\<close> at time \<open>now\<close>, as object \<open>i\<close>.\<close>

definition make_dir_entry :: "nat \<Rightarrow> nat \<Rightarrow> entry_type \<Rightarrow> string \<Rightarrow> DirEntry" where
  "make_dir_entry i now t n =
     DirEntry \<lparr>ident = i, etype = t, name = n, open_files = [], data = None, locks = 0,
               created_time = now, modified_time = now, accessed_time = now, xattrs = []\<rparr>
              (if t = Dir then Some [] else None)"

definition map_attrs :: "(entry_attrs \<Rightarrow> entry_attrs) \<Rightarrow> DirEntry \<Rightarrow> DirEntry" where
  "map_attrs g e = DirEntry (g (attrs e)) (contents e)"

subsection \<open>MemoryFS: state and path resolution\<close>

text \<open>
  The filesystem object: the root node, the store of handles, the counters that give
  fresh object identities, and the reading of \<^verbatim>\<open>datetime.datetime.now()\<close>.
\<close>

record MemoryFS =
  root :: DirEntry
  files :: "nat \<Rightarrow> MemoryFile option"
  next_file :: nat
  next_ident :: nat
  now :: nat

type_synonym 'a result = "(error + 'a) \<times> MemoryFS"

definition MemoryFS_init :: "nat \<Rightarrow> MemoryFS" where
  "MemoryFS_init t =
     \<lparr>root = make_dir_entry 0 t Dir ''root'', files = (\<lambda>_. None),
      next_file = 0, next_ident = 1, now = t\<rparr>"

text \<open>The loop of \<^verbatim>\<open>_get_dir_entry\<close>, started at \<open>current_dir\<close>.\<close>

fun walk :: "DirEntry \<Rightarrow> string list \<Rightarrow> DirEntry option" where
  "walk current_dir [] = Some current_dir"
| "walk current_dir (path_component # rest) =
     (case contents current_dir of
        None \<Rightarrow> None
      | Some c \<Rightarrow>
          (case map_of c path_component of
             None \<Rightarrow> None
           | Some dir_entry \<Rightarrow> walk dir_entry rest))"

definition get_dir_entry :: "MemoryFS \<Rightarrow> path \<Rightarrow> DirEntry option" where
  "get_dir_entry fs dirpath = walk (root fs) (iteratepath dirpath)"

definition isdir :: "MemoryFS \<Rightarrow> path \<Rightarrow> bool" where
  "isdir fs p = (case get_dir_entry fs (normpath p) of None \<Rightarrow> False | Some e \<Rightarrow> isdir_entry e)"

definition isfile :: "MemoryFS \<Rightarrow> path \<Rightarrow> bool" where
  "isfile fs p = (case get_dir_entry fs (normpath p) of None \<Rightarrow> False | Some e \<Rightarrow> isfile_entry e)"

definition exists_path :: "MemoryFS \<Rightarrow> path \<Rightarrow> bool" where
  "exists_path fs p = (get_dir_entry fs p \<noteq> None)"

text \<open>
  In-place mutation of the object that a path resolves to: the node at the path is
  replaced by \<open>f\<close> of itself, every other node keeps its place.  On a path that does
  not resolve nothing changes (callers test resolution first).
\<close>

fun modify :: "(DirEntry \<Rightarrow> DirEntry) \<Rightarrow> DirEntry \<Rightarrow> string list \<Rightarrow> DirEntry" where
  "modify f current_dir [] = f current_dir"
| "modify f current_dir (path_component # rest) =
     (case contents current_dir of
        None \<Rightarrow> current_dir
      | Some c \<Rightarrow>
          (case map_of c path_component of
             None \<Rightarrow> current_dir
           | Some dir_entry \<Rightarrow>
               DirEntry (attrs current_dir)
                 (Some (AList.update path_component (modify f dir_entry rest) c))))"

definition modify_entry :: "MemoryFS \<Rightarrow> path \<Rightarrow> (DirEntry \<Rightarrow> DirEntry) \<Rightarrow> MemoryFS" where
  "modify_entry fs p f = fs\<lparr>root := modify f (root fs) (iteratepath p)\<rparr>"

text \<open>Dictionary operations on \<^verbatim>\<open>contents\<close>; a file has no dictionary.\<close>

definition contents_set :: "string \<Rightarrow> DirEntry \<Rightarrow> DirEntry \<Rightarrow> DirEntry" where
  "contents_set k v e =
     DirEntry (attrs e) (case contents e of None \<Rightarrow> None | Some c \<Rightarrow> Some (AList.update k v c))"

definition contents_del :: "string \<Rightarrow> DirEntry \<Rightarrow> DirEntry" where
  "contents_del k e =
     DirEntry (attrs e) (case contents e of None \<Rightarrow> None | Some c \<Rightarrow> Some (AList.delete k c))"

subsection \<open>Locking and the callbacks of a handle\<close>

definition lock_dir_entry :: "MemoryFS \<Rightarrow> path \<Rightarrow> unit result" where
  "lock_dir_entry fs p =
     (case get_dir_entry fs p of
        None \<Rightarrow> (Inl AttributeError, fs)
      | Some dir_entry \<Rightarrow>
          (Inr (), modify_entry fs p (map_attrs (\<lambda>a. a\<lparr>locks := locks a + 1\<rparr>))))"

text \<open>\<^verbatim>\<open>unlock\<close> decrements first and asserts afterwards.\<close>

definition unlock_dir_entry :: "MemoryFS \<Rightarrow> path \<Rightarrow> unit result" where
  "unlock_dir_entry fs p =
     (case get_dir_entry fs p of
        None \<Rightarrow> (Inl AttributeError, fs)
      | Some dir_entry \<Rightarrow>
          (let fs' = modify_entry fs p (map_attrs (\<lambda>a. a\<lparr>locks := locks a - 1\<rparr>))
           in if locks (attrs dir_entry) - 1 \<ge> 0 then (Inr (), fs')
              else (Inl AssertionError, fs')))"

definition on_close_memory_file :: "MemoryFS \<Rightarrow> nat \<Rightarrow> path \<Rightarrow> string \<Rightarrow> unit result" where
  "on_close_memory_file fs open_file p value =
     (case get_dir_entry fs p of
        None \<Rightarrow> (Inr (), fs)
      | Some dir_entry \<Rightarrow>
          (let fs1 = modify_entry fs p (map_attrs (\<lambda>a. a\<lparr>data := Some value\<rparr>))
           in if open_file \<notin> set (open_files (attrs dir_entry)) then (Inl ValueError, fs1)
              else unlock_dir_entry
                     (modify_entry fs1 p
                        (map_attrs (\<lambda>a. a\<lparr>open_files := remove1 open_file (open_files a)\<rparr>)))
                     p))"

definition on_flush_memory_file :: "MemoryFS \<Rightarrow> path \<Rightarrow> string \<Rightarrow> unit result" where
  "on_flush_memory_file fs p value =
     (case get_dir_entry fs p of
        None \<Rightarrow> (Inl AttributeError, fs)
      | Some dir_entry \<Rightarrow>
          (Inr (), modify_entry fs p (map_attrs (\<lambda>a. a\<lparr>data := Some value\<rparr>))))"

definition on_modify_memory_file :: "MemoryFS \<Rightarrow> path \<Rightarrow> unit result" where
  "on_modify_memory_file fs p =
     (case get_dir_entry fs p of
        None \<Rightarrow> (Inl AttributeError, fs)
      | Some dir_entry \<Rightarrow>
          (Inr (), modify_entry fs p (map_attrs (\<lambda>a. a\<lparr>modified_time := now fs\<rparr>))))"

subsection \<open>Methods of a handle\<close>

definition set_file :: "MemoryFS \<Rightarrow> nat \<Rightarrow> MemoryFile \<Rightarrow> MemoryFS" where
  "set_file fs h f = fs\<lparr>files := (files fs)(h \<mapsto> f)\<rparr>"

definition MemoryFile_flush :: "MemoryFS \<Rightarrow> nat \<Rightarrow> unit result" where
  "MemoryFile_flush fs h =
     (case files fs h of
        None \<Rightarrow> (Inl NoSuchHandle, fs)
      | Some f \<Rightarrow>
          (case sio_getvalue (mem_file f) of
             Inl e \<Rightarrow> (Inl e, fs)
           | Inr value \<Rightarrow> on_flush_memory_file fs (path f) value))"

definition MemoryFile_close :: "MemoryFS \<Rightarrow> nat \<Rightarrow> unit result" where
  "MemoryFile_close fs h =
     (case files fs h of
        None \<Rightarrow> (Inl NoSuchHandle, fs)
      | Some f \<Rightarrow>
          if closed f then (Inr (), fs)
          else
            (case sio_getvalue (mem_file f) of
               Inl e \<Rightarrow> (Inl e, fs)
             | Inr value \<Rightarrow>
                 (case on_close_memory_file fs h (path f) value of
                    (Inl e, fs') \<Rightarrow> (Inl e, fs')
                  | (Inr u, fs') \<Rightarrow>
                      (Inr (), set_file fs' h
                                 (f\<lparr>mem_file := sio_close (mem_file f), closed := True\<rparr>)))))"

definition MemoryFile_read :: "MemoryFS \<Rightarrow> nat \<Rightarrow> int option \<Rightarrow> string result" where
  "MemoryFile_read fs h size0 =
     (case files fs h of
        None \<Rightarrow> (Inl NoSuchHandle, fs)
      | Some f \<Rightarrow>
          (case sio_read (mem_file f) (case size0 of None \<Rightarrow> - 1 | Some n \<Rightarrow> n) of
             Inl e \<Rightarrow> (Inl e, fs)
           | Inr (s, m) \<Rightarrow> (Inr s, set_file fs h (f\<lparr>mem_file := m\<rparr>))))"

definition MemoryFile_seek :: "MemoryFS \<Rightarrow> nat \<Rightarrow> nat \<Rightarrow> unit result" where
  "MemoryFile_seek fs h n =
     (case files fs h of
        None \<Rightarrow> (Inl NoSuchHandle, fs)
      | Some f \<Rightarrow>
          (case sio_seek (mem_file f) n of
             Inl e \<Rightarrow> (Inl e, fs)
           | Inr m \<Rightarrow> (Inr (), set_file fs h (f\<lparr>mem_file := m\<rparr>))))"

definition MemoryFile_write :: "MemoryFS \<Rightarrow> nat \<Rightarrow> string \<Rightarrow> unit result" where
  "MemoryFile_write fs h d =
     (case files fs h of
        None \<Rightarrow> (Inl NoSuchHandle, fs)
      | Some f \<Rightarrow>
          (case on_modify_memory_file fs (path f) of
             (Inl e, fs') \<Rightarrow> (Inl e, fs')
           | (Inr u, fs') \<Rightarrow>
               (case sio_write (mem_file f) d of
                  Inl e \<Rightarrow> (Inl e, fs')
                | Inr m \<Rightarrow> (Inr (), set_file fs' h (f\<lparr>mem_file := m\<rparr>)))))"

subsection \<open>open\<close>

text \<open>
  The tail shared by both branches of \<^verbatim>\<open>open\<close>, once \<open>file_dir_entry\<close> (the object
  \<^verbatim>\<open>parent_dir_entry.contents[filename]\<close>, at \<open>filepath @ [filename]\<close> in the tree) is
  known: set the access time, lock the entry that \<open>p\<close> resolves to, create the
  handle from \<open>value\<close> and register it with \<open>file_dir_entry\<close>.
\<close>

definition open_handle ::
  "MemoryFS \<Rightarrow> path \<Rightarrow> path \<Rightarrow> string \<Rightarrow> string option \<Rightarrow> string \<Rightarrow> nat option result" where
  "open_handle fs p filepath filename value m =
     (let fs1 = modify_entry fs (filepath @ [filename])
                  (map_attrs (\<lambda>a. a\<lparr>accessed_time := now fs\<rparr>))
      in case lock_dir_entry fs1 p of
           (Inl e, fs2) \<Rightarrow> (Inl e, fs2)
         | (Inr u, fs2) \<Rightarrow>
             (let h = next_file fs2;
                  fs3 = (set_file fs2 h (MemoryFile_init p value m))\<lparr>next_file := h + 1\<rparr>
              in (Inr (Some h),
                  modify_entry fs3 (filepath @ [filename])
                    (map_attrs (\<lambda>a. a\<lparr>open_files := open_files a @ [h]\<rparr>)))))"

definition open_file :: "MemoryFS \<Rightarrow> path \<Rightarrow> string \<Rightarrow> nat option result" where
  "open_file fs p m =
     (let (filepath, filename) = pathsplit p in
      case get_dir_entry fs filepath of
        None \<Rightarrow> (Inl ResourceNotFoundError, fs)
      | Some parent_dir_entry \<Rightarrow>
          if \<not> isdir_entry parent_dir_entry then (Inl ResourceNotFoundError, fs)
          else
            (case contents parent_dir_entry of
               None \<Rightarrow> (Inl TypeError, fs)
             | Some c \<Rightarrow>
                 if CHR ''r'' \<in> set m \<or> CHR ''a'' \<in> set m then
                   (case map_of c filename of
                      None \<Rightarrow> (Inl ResourceNotFoundError, fs)
                    | Some file_dir_entry \<Rightarrow>
                        if CHR ''a'' \<in> set m \<and> islocked file_dir_entry
                        then (Inl ResourceLockedError, fs)
                        else open_handle fs p filepath filename
                               (data (attrs file_dir_entry)) m)
                 else if CHR ''w'' \<in> set m then
                   (case map_of c filename of
                      None \<Rightarrow>
                        open_handle
                          ((modify_entry fs filepath
                              (contents_set filename
                                 (make_dir_entry (next_ident fs) (now fs) File filename)))
                           \<lparr>next_ident := next_ident fs + 1\<rparr>)
                          p filepath filename None m
                    | Some file_dir_entry \<Rightarrow>
                        if islocked file_dir_entry then (Inl ResourceLockedError, fs)
                        else open_handle fs p filepath filename None m)
                 else (Inr None, fs)))"

subsection \<open>remove\<close>

fun orphan_loop :: "MemoryFS \<Rightarrow> nat list \<Rightarrow> unit result" where
  "orphan_loop fs [] = (Inr (), fs)"
| "orphan_loop fs (f # rest) =
     (case MemoryFile_close fs f of
        (Inl e, fs') \<Rightarrow> (Inl e, fs')
      | (Inr u, fs') \<Rightarrow> orphan_loop fs' rest)"

definition orphan_files :: "MemoryFS \<Rightarrow> DirEntry \<Rightarrow> unit result" where
  "orphan_files fs file_dir_entry = orphan_loop fs (open_files (attrs file_dir_entry))"

text \<open>\<^verbatim>\<open>del parent_dir.contents[dirname]\<close> for the entry that \<open>pathname\<close> resolves to.\<close>

definition del_entry :: "MemoryFS \<Rightarrow> path \<Rightarrow> string \<Rightarrow> unit result" where
  "del_entry fs pathname dirname =
     (case get_dir_entry fs pathname of
        None \<Rightarrow> (Inl AttributeError, fs)
      | Some parent_dir \<Rightarrow>
          (case contents parent_dir of
             None \<Rightarrow> (Inl TypeError, fs)
           | Some c \<Rightarrow>
               if map_of c dirname = None then (Inl KeyError, fs)
               else (Inr (), modify_entry fs pathname (contents_del dirname))))"

definition remove :: "MemoryFS \<Rightarrow> path \<Rightarrow> unit result" where
  "remove fs p =
     (case get_dir_entry fs p of
        None \<Rightarrow> (Inl ResourceNotFoundError, fs)
      | Some dir_entry \<Rightarrow>
          (case (if islocked dir_entry then orphan_files fs dir_entry else (Inr (), fs)) of
             (Inl e, fs1) \<Rightarrow> (Inl e, fs1)
           | (Inr u, fs1) \<Rightarrow>
               if isdir_entry dir_entry then (Inl ResourceInvalidError, fs1)
               else (let (pathname, dirname) = pathsplit p
                     in del_entry fs1 pathname dirname)))"

subsection \<open>removedir\<close>

function removedir_loop :: "MemoryFS \<Rightarrow> path \<Rightarrow> unit result" where
  "removedir_loop fs rpathname =
     (if rpathname = [] then (Inr (), fs)
      else (let (rpathname', dirname) = pathsplit rpathname
            in case del_entry fs rpathname' dirname of
                 (Inl e, fs') \<Rightarrow> (Inl e, fs')
               | (Inr u, fs') \<Rightarrow> removedir_loop fs' rpathname'))"
  by pat_completeness auto
termination
  by (relation "measure (\<lambda>(fs, p). length p)") (auto simp: pathsplit_def)

declare removedir_loop.simps [simp del]

definition removedir :: "MemoryFS \<Rightarrow> path \<Rightarrow> bool \<Rightarrow> bool \<Rightarrow> unit result" where
  "removedir fs p recursive force =
     (case get_dir_entry fs p of
        None \<Rightarrow> (Inl ResourceNotFoundError, fs)
      | Some dir_entry \<Rightarrow>
          if islocked dir_entry then (Inl ResourceLockedError, fs)
          else if \<not> isdir_entry dir_entry then (Inl ResourceInvalidError, fs)
          else if (contents dir_entry \<noteq> None \<and> contents dir_entry \<noteq> Some []) \<and> \<not> force
            then (Inl DirectoryNotEmptyError, fs)
          else if recursive then removedir_loop fs p
          else (let (pathname, dirname) = pathsplit p
                in del_entry fs pathname dirname))"

subsection \<open>rename\<close>

text \<open>The loop over the handles of the source entry: flush, then repoint.\<close>

fun rename_loop :: "MemoryFS \<Rightarrow> path \<Rightarrow> nat list \<Rightarrow> unit result" where
  "rename_loop fs dst [] = (Inr (), fs)"
| "rename_loop fs dst (f # rest) =
     (case MemoryFile_flush fs f of
        (Inl e, fs') \<Rightarrow> (Inl e, fs')
      | (Inr u, fs') \<Rightarrow>
          (case files fs' f of
             None \<Rightarrow> (Inl NoSuchHandle, fs')
           | Some mf \<Rightarrow> rename_loop (set_file fs' f (mf\<lparr>path := dst\<rparr>)) dst rest))"

text \<open>
  The last four statements of \<^verbatim>\<open>rename\<close>.  The moved object is entered under
  \<open>dst_name\<close> in the destination directory and renamed, the destination directory's
  \<^verbatim>\<open>xattrs\<close> are updated with the copy taken from the source directory, and the old key
  is deleted from the source directory.
\<close>

definition rename_move ::
  "MemoryFS \<Rightarrow> path \<Rightarrow> string \<Rightarrow> path \<Rightarrow> string \<Rightarrow> DirEntry \<Rightarrow> (string \<times> string) list \<Rightarrow> MemoryFS" where
  "rename_move fs src_dir src_name dst_dir dst_name moved src_xattrs =
     (let fs1 = modify_entry fs dst_dir
                  (\<lambda>d. map_attrs (\<lambda>a. a\<lparr>xattrs := AList.merge (xattrs a) src_xattrs\<rparr>)
                         (contents_set dst_name
                            (map_attrs (\<lambda>a. a\<lparr>name := dst_name\<rparr>) moved) d))
      in modify_entry fs1 src_dir (contents_del src_name))"

definition rename :: "MemoryFS \<Rightarrow> path \<Rightarrow> path \<Rightarrow> unit result" where
  "rename fs src dst =
     (let (src_dir, src_name) = pathsplit src in
      case get_dir_entry fs src of
        None \<Rightarrow> (Inl ResourceNotFoundError, fs)
      | Some src_entry \<Rightarrow>
          (case rename_loop fs dst (open_files (attrs src_entry)) of
             (Inl e, fs1) \<Rightarrow> (Inl e, fs1)
           | (Inr u, fs1) \<Rightarrow>
               (let (dst_dir, dst_name) = pathsplit dst in
                if get_dir_entry fs1 dst \<noteq> None then (Inl DestinationExistsError, fs1)
                else
                  (case get_dir_entry fs1 src_dir of
                     None \<Rightarrow> (Inl AttributeError, fs1)
                   | Some src_dir_entry \<Rightarrow>
                       (case get_dir_entry fs1 dst_dir of
                          None \<Rightarrow> (Inl ParentDirectoryMissingError, fs1)
                        | Some dst_dir_entry \<Rightarrow>
                            (case contents src_dir_entry of
                               None \<Rightarrow> (Inl TypeError, fs1)
                             | Some c \<Rightarrow>
                                 (case map_of c src_name of
                                    None \<Rightarrow> (Inl KeyError, fs1)
                                  | Some moved \<Rightarrow>
                                      if contents dst_dir_entry = None
                                      then (Inl TypeError, fs1)
                                      else (Inr (),
                                            rename_move fs1 src_dir src_name dst_dir dst_name
                                              moved (xattrs (attrs src_dir_entry))))))))))"

subsection \<open>makedir\<close>

text \<open>The first loop of the recursive branch: it only checks.\<close>

fun makedir_check :: "DirEntry \<Rightarrow> string list \<Rightarrow> error + unit" where
  "makedir_check current_dir [] = Inr ()"
| "makedir_check current_dir (path_component # rest) =
     (case contents current_dir of
        None \<Rightarrow> Inl AttributeError
      | Some c \<Rightarrow>
          (case map_of c path_component of
             None \<Rightarrow> Inr ()
           | Some dir_item \<Rightarrow>
               if \<not> isdir_entry dir_item then Inl ResourceInvalidError
               else makedir_check dir_item rest))"

text \<open>The second loop: \<open>cur\<close> is the place of \<^verbatim>\<open>current_dir\<close> in the tree.\<close>

fun makedir_create :: "MemoryFS \<Rightarrow> string list \<Rightarrow> string list \<Rightarrow> unit result" where
  "makedir_create fs cur [] = (Inr (), fs)"
| "makedir_create fs cur (path_component # rest) =
     (case walk (root fs) cur of
        None \<Rightarrow> (Inl AttributeError, fs)
      | Some current_dir \<Rightarrow>
          (case contents current_dir of
             None \<Rightarrow> (Inl AttributeError, fs)
           | Some c \<Rightarrow>
               (case map_of c path_component of
                  None \<Rightarrow>
                    makedir_create
                      ((modify_entry fs cur
                          (contents_set path_component
                             (make_dir_entry (next_ident fs) (now fs) Dir path_component)))
                       \<lparr>next_ident := next_ident fs + 1\<rparr>)
                      (cur @ [path_component]) rest
                | Some dir_item \<Rightarrow> makedir_create fs (cur @ [path_component]) rest)))"

text \<open>The statements after the branch on \<open>recursive\<close>, with \<open>parent_dir\<close> at \<open>dirpath\<close>.\<close>

definition makedir_leaf :: "MemoryFS \<Rightarrow> path \<Rightarrow> string \<Rightarrow> bool \<Rightarrow> unit result" where
  "makedir_leaf fs dirpath dirname allow_recreate =
     (case get_dir_entry fs dirpath of
        None \<Rightarrow> (Inl AttributeError, fs)
      | Some parent_dir \<Rightarrow>
          (case contents parent_dir of
             None \<Rightarrow> (Inl AttributeError, fs)
           | Some c \<Rightarrow>
               (case map_of c dirname of
                  Some dir_item \<Rightarrow>
                    if isdir_entry dir_item then
                      (if \<not> allow_recreate then (Inl DestinationExistsError, fs)
                       else (Inr (), fs))
                    else (Inl ResourceInvalidError, fs)
                | None \<Rightarrow>
                    (Inr (),
                     (modify_entry fs dirpath
                        (contents_set dirname
                           (make_dir_entry (next_ident fs) (now fs) Dir dirname)))
                     \<lparr>next_ident := next_ident fs + 1\<rparr>))))"

definition makedir :: "MemoryFS \<Rightarrow> path \<Rightarrow> bool \<Rightarrow> bool \<Rightarrow> unit result" where
  "makedir fs fullpath recursive allow_recreate =
     (if fullpath = [] then (Inl PathError, fs)
      else
        (let (dirpath, dirname) = pathsplit fullpath in
         if recursive then
           (case (case get_dir_entry fs dirpath of
                    None \<Rightarrow> Inr ()
                  | Some parent_dir \<Rightarrow>
                      if isfile_entry parent_dir then Inl ResourceInvalidError
                      else if \<not> allow_recreate then
                        (case contents parent_dir of
                           None \<Rightarrow> Inl TypeError
                         | Some c \<Rightarrow>
                             if map_of c dirname \<noteq> None then Inl DestinationExistsError
                             else Inr ())
                      else Inr ()) of
              Inl e \<Rightarrow> (Inl e, fs)
            | Inr u \<Rightarrow>
                (case makedir_check (root fs) (butlast (iteratepath dirpath)) of
                   Inl e \<Rightarrow> (Inl e, fs)
                 | Inr u \<Rightarrow>
                     (case makedir_create fs [] (iteratepath dirpath) of
                        (Inl e, fs') \<Rightarrow> (Inl e, fs')
                      | (Inr u, fs') \<Rightarrow> makedir_leaf fs' dirpath dirname allow_recreate)))
         else
           (case get_dir_entry fs dirpath of
              None \<Rightarrow> (Inl ParentDirectoryMissingError, fs)
            | Some parent_dir \<Rightarrow> makedir_leaf fs dirpath dirname allow_recreate)))"

subsection \<open>Times and extended attributes\<close>

definition settimes :: "MemoryFS \<Rightarrow> path \<Rightarrow> nat option \<Rightarrow> nat option \<Rightarrow> bool result" where
  "settimes fs p accessed modified =
     (let a_time = (case accessed of None \<Rightarrow> now fs | Some t \<Rightarrow> t);
          m_time = (case modified of None \<Rightarrow> now fs | Some t \<Rightarrow> t)
      in case get_dir_entry fs p of
           None \<Rightarrow> (Inr False, fs)
         | Some dir_entry \<Rightarrow>
             (Inr True,
              modify_entry fs p
                (map_attrs (\<lambda>a. a\<lparr>accessed_time := a_time, modified_time := m_time\<rparr>))))"

definition setxattr :: "MemoryFS \<Rightarrow> path \<Rightarrow> string \<Rightarrow> string \<Rightarrow> unit result" where
  "setxattr fs p key value =
     (case get_dir_entry fs p of
        None \<Rightarrow> (Inl ResourceNotFoundError, fs)
      | Some dir_entry \<Rightarrow>
          (Inr (), modify_entry fs p
                     (map_attrs (\<lambda>a. a\<lparr>xattrs := AList.update key value (xattrs a)\<rparr>))))"

definition getxattr :: "MemoryFS \<Rightarrow> path \<Rightarrow> string \<Rightarrow> string option \<Rightarrow> error + string option" where
  "getxattr fs p key dflt =
     (case get_dir_entry fs p of
        None \<Rightarrow> Inl ResourceNotFoundError
      | Some dir_entry \<Rightarrow>
          Inr (case map_of (xattrs (attrs dir_entry)) key of None \<Rightarrow> dflt | Some v \<Rightarrow> Some v))"

definition delxattr :: "MemoryFS \<Rightarrow> path \<Rightarrow> string \<Rightarrow> unit result" where
  "delxattr fs p key =
     (case get_dir_entry fs p of
        None \<Rightarrow> (Inl ResourceNotFoundError, fs)
      | Some dir_entry \<Rightarrow>
          (Inr (), modify_entry fs p
                     (map_attrs (\<lambda>a. a\<lparr>xattrs := AList.delete key (xattrs a)\<rparr>))))"

text \<open>The clock is read, never set, by the filesystem; time passes between calls.\<close>

definition tick :: "MemoryFS \<Rightarrow> nat \<Rightarrow> MemoryFS" where
  "tick fs t = fs\<lparr>now := t\<rparr>"

subsection \<open>What an operation can see of a node\<close>

text \<open>
  Every test of the source on a resolved node reads its attributes or whether its
  \<^verbatim>\<open>contents\<close> is \<^verbatim>\<open>None\<close>; \<open>stat\<close> gives both for the node a path resolves to.
\<close>

definition view :: "DirEntry \<Rightarrow> entry_attrs \<times> bool" where
  "view e = (attrs e, contents e = None)"

definition stat :: "MemoryFS \<Rightarrow> path \<Rightarrow> (entry_attrs \<times> bool) option" where
  "stat fs q = map_option view (get_dir_entry fs q)"

subsection \<open>Sequences of operations\<close>

text \<open>
  The lock count of a node agrees with its registered handles when, for a file, it is the
  number of the handles.
\<close>

definition counted :: "entry_attrs \<Rightarrow> bool" where
  "counted a = (if etype a = File then locks a = int (length (open_files a)) else True)"

definition locks_ok :: "MemoryFS \<Rightarrow> bool" where
  "locks_ok fs = (\<forall>q a b. stat fs q = Some (a, b) \<longrightarrow> counted a)"

text \<open>
  The mutating operations of the filesystem and of its handles, and the passing of time;
  an operation that raises leaves the state it had reached.  The generic copy and move
  of the base class are not part of the source.
\<close>

datatype operation =
    Makedir path bool bool
  | Open path string
  | Remove path
  | Removedir path bool bool
  | Rename path path
  | Settimes path "nat option" "nat option"
  | Setxattr path string string
  | Delxattr path string
  | Write nat string
  | Flush nat
  | Close nat
  | Read nat "int option"
  | Seek nat nat
  | Tick nat

fun perform :: "MemoryFS \<Rightarrow> operation \<Rightarrow> MemoryFS" where
  "perform fs (Makedir p recursive allow_recreate) = snd (makedir fs p recursive allow_recreate)"
| "perform fs (Open p m) = snd (open_file fs p m)"
| "perform fs (Remove p) = snd (remove fs p)"
| "perform fs (Removedir p recursive force) = snd (removedir fs p recursive force)"
| "perform fs (Rename src dst) = snd (rename fs src dst)"
| "perform fs (Settimes p a m) = snd (settimes fs p a m)"
| "perform fs (Setxattr p k v) = snd (setxattr fs p k v)"
| "perform fs (Delxattr p k) = snd (delxattr fs p k)"
| "perform fs (Write h d) = snd (MemoryFile_write fs h d)"
| "perform fs (Flush h) = snd (MemoryFile_flush fs h)"
| "perform fs (Close h) = snd (MemoryFile_close fs h)"
| "perform fs (Read h n) = snd (MemoryFile_read fs h n)"
| "perform fs (Seek h n) = snd (MemoryFile_seek fs h n)"
| "perform fs (Tick t) = tick fs t"

definition run :: "MemoryFS \<Rightarrow> operation list \<Rightarrow> MemoryFS" where
  "run fs ops = foldl perform fs ops"

fun opens_root :: "operation \<Rightarrow> bool" where
  "opens_root (Open p m) = (p = [])"
| "opens_root _ = False"

subsection \<open>Example states\<close>

text \<open>
  A filesystem with a file \<open>f\<close> held open by handle 0, whose buffer holds \<open>hi\<close> not
  yet committed, and a closed empty file \<open>g\<close>.
\<close>

definition example_open :: MemoryFS where
  "example_open =
     (let fs1 = snd (open_file (MemoryFS_init 0) [''f''] ''w'');
          fs2 = snd (MemoryFile_write fs1 0 ''hi'');
          fs3 = snd (open_file fs2 [''g''] ''w'')
      in snd (MemoryFile_close fs3 1))"

text \<open>
  Two directories \<open>a\<close> and \<open>b\<close> with extended attributes that clash on the key \<open>k\<close>,
  and a closed file \<open>a/f\<close> with content and an attribute of its own.
\<close>

definition example_xattrs :: MemoryFS where
  "example_xattrs =
     (let fs1 = snd (makedir (MemoryFS_init 0) [''a''] False False);
          fs2 = snd (makedir fs1 [''b''] False False);
          fs3 = snd (setxattr fs2 [''a''] ''k'' ''v1'');
          fs4 = snd (setxattr fs3 [''b''] ''k'' ''v2'');
          fs5 = snd (setxattr fs4 [''b''] ''j'' ''w'');
          fs6 = snd (open_file fs5 [''a'', ''f''] ''w'');
          fs7 = snd (MemoryFile_write fs6 0 ''data'');
          fs8 = snd (MemoryFile_close fs7 0)
      in snd (setxattr fs8 [''a'', ''f''] ''tag'' ''T''))"

text \<open>A filesystem with one closed file \<open>f\<close> whose committed content is \<open>ab\<close>.\<close>

definition example_closed :: MemoryFS where
  "example_closed =
     (let fs1 = snd (open_file (MemoryFS_init 0) [''f''] ''w'');
          fs2 = snd (MemoryFile_write fs1 0 ''ab'')
      in snd (MemoryFile_close fs2 0))"

section \<open>Properties\<close>

subsection \<open>Resolution after a mutation\<close>

lemma pathsplit_snoc: "pathsplit (d @ [n]) = (d, n)"
  by (simp add: pathsplit_def)

lemma attrs_modify_Cons: "attrs (modify f e (c # cs)) = attrs e"
  by (simp split: option.splits)

lemma walk_append:
  "walk r (p @ q) = (case walk r p of None \<Rightarrow> None | Some e \<Rightarrow> walk e q)"
  by (induction p arbitrary: r) (simp_all split: option.splits)

lemma walk_modify_same: "walk (modify f r p) p = map_option f (walk r p)"
  by (induction p arbitrary: r) (simp_all add: update_conv' split: option.splits)

lemma walk_modify_below:
  "walk (modify f r p) (p @ q) = (case walk r p of None \<Rightarrow> None | Some x \<Rightarrow> walk (f x) q)"
  by (simp add: walk_append walk_modify_same split: option.splits)

lemma walk_modify_other:
  "\<not> prefix p q \<Longrightarrow>
   walk (modify f r p) q =
     map_option (\<lambda>e. if prefix q p then modify f e (drop (length q) p) else e) (walk r q)"
proof (induction q arbitrary: r p)
  case Nil
  then show ?case by simp
next
  case (Cons c cs)
  then obtain b bs where p: "p = b # bs" by (cases p) auto
  show ?case
  proof (cases "b = c")
    case True
    with Cons.prems p have np: "\<not> prefix bs cs" by simp
    show ?thesis unfolding p True using Cons.IH[OF np]
      by (simp add: update_conv' split: option.splits cong: if_cong)
  next
    case False
    then show ?thesis unfolding p
      by (simp add: update_conv' option.map_ident split: option.splits)
  qed
qed

lemma view_modify_Cons: "view (modify f e (c # cs)) = view e"
  by (simp add: view_def split: option.splits)

lemma walk_map_attrs_Cons: "walk (map_attrs g e) (c # cs) = walk e (c # cs)"
  by (simp add: map_attrs_def)

lemma view_map_attrs: "view (map_attrs g e) = apfst g (view e)"
  by (simp add: view_def map_attrs_def)

lemma view_walk_modify_other:
  assumes "\<not> prefix p q"
  shows "map_option view (walk (modify f r p) q) = map_option view (walk r q)"
proof -
  have v: "view (if prefix q p then modify f e (drop (length q) p) else e) = view e" for e
  proof (cases "prefix q p")
    case True
    then obtain t where p: "p = q @ t" by (auto simp: prefix_def)
    with assms obtain c cs where t: "t = c # cs" by (cases t) auto
    show ?thesis using True by (simp add: p t view_modify_Cons del: modify.simps)
  next
    case False
    then show ?thesis by simp
  qed
  show ?thesis
    by (simp add: walk_modify_other[OF assms] option.map_comp comp_def v option.map_ident)
qed

lemma stat_modify_other:
  "\<not> prefix p q \<Longrightarrow> stat (modify_entry fs p f) q = stat fs q"
  by (simp add: stat_def get_dir_entry_def modify_entry_def iteratepath_def
      view_walk_modify_other)

lemma get_modify_same:
  "get_dir_entry (modify_entry fs p f) p = map_option f (get_dir_entry fs p)"
  by (simp add: get_dir_entry_def modify_entry_def iteratepath_def walk_modify_same)

lemma stat_modify_same:
  "stat (modify_entry fs p f) p = map_option (\<lambda>e. view (f e)) (get_dir_entry fs p)"
  by (simp add: stat_def get_dir_entry_def modify_entry_def iteratepath_def
      walk_modify_same option.map_comp comp_def)

lemma get_modify_below:
  "get_dir_entry (modify_entry fs p f) (p @ q) =
     (case get_dir_entry fs p of None \<Rightarrow> None | Some x \<Rightarrow> walk (f x) q)"
  by (simp add: get_dir_entry_def modify_entry_def iteratepath_def walk_modify_below)

lemma get_append:
  "get_dir_entry fs (p @ q) =
     (case get_dir_entry fs p of None \<Rightarrow> None | Some x \<Rightarrow> walk x q)"
  by (simp add: get_dir_entry_def iteratepath_def walk_append)

lemma stat_modify_attrs:
  "stat (modify_entry fs p (map_attrs g)) q =
     (if q = p then map_option (apfst g) (stat fs q) else stat fs q)"
proof (cases "prefix p q")
  case True
  then obtain r where q: "q = p @ r" by (auto simp: prefix_def)
  show ?thesis
  proof (cases r)
    case Nil
    then show ?thesis using q
      by (simp add: get_modify_same stat_def option.map_comp comp_def view_map_attrs)
  next
    case (Cons c cs)
    then show ?thesis using q
      by (simp add: stat_def get_modify_below get_append[of fs] walk_map_attrs_Cons
          del: walk.simps split: option.splits)
  qed
next
  case False
  then show ?thesis by (auto simp: stat_modify_other)
qed

lemma view_contents_del: "view (contents_del n e) = view e"
  by (simp add: view_def contents_del_def split: option.splits)

lemma walk_contents_del_Cons:
  "walk (contents_del n e) (c # cs) = (if c = n then None else walk e (c # cs))"
  by (simp add: contents_del_def delete_conv' split: option.splits)

lemma stat_modify_del:
  "stat (modify_entry fs d (contents_del n)) q =
     (if prefix (d @ [n]) q then None else stat fs q)"
proof (cases "prefix d q")
  case True
  then obtain r where q: "q = d @ r" by (auto simp: prefix_def)
  show ?thesis
  proof (cases r)
    case Nil
    then show ?thesis using q
      by (simp add: get_modify_same stat_def option.map_comp comp_def view_contents_del)
  next
    case (Cons c cs)
    then show ?thesis using q
      by (simp add: stat_def get_modify_below get_append[of fs] walk_contents_del_Cons
          del: walk.simps split: option.splits)
  qed
next
  case False
  then have "\<not> prefix (d @ [n]) q" by (auto simp: prefix_def)
  with False show ?thesis by (simp add: stat_modify_other)
qed


lemma modify_entry_fields [simp]:
  "files (modify_entry fs p f) = files fs"
  "next_file (modify_entry fs p f) = next_file fs"
  "next_ident (modify_entry fs p f) = next_ident fs"
  "now (modify_entry fs p f) = now fs"
  by (simp_all add: modify_entry_def)

lemma set_file_fields [simp]:
  "files (set_file fs h f) = (files fs)(h \<mapsto> f)"
  "next_file (set_file fs h f) = next_file fs"
  "next_ident (set_file fs h f) = next_ident fs"
  "now (set_file fs h f) = now fs"
  "root (set_file fs h f) = root fs"
  by (simp_all add: set_file_def)

lemma stat_root_cong: "root fs' = root fs \<Longrightarrow> stat fs' q = stat fs q"
  by (simp add: stat_def get_dir_entry_def)

lemma stat_set_file [simp]: "stat (set_file fs h f) q = stat fs q"
  by (rule stat_root_cong) simp

lemma stat_next_file [simp]: "stat (fs\<lparr>next_file := k\<rparr>) q = stat fs q"
  by (rule stat_root_cong) simp

lemma stat_next_ident [simp]: "stat (fs\<lparr>next_ident := k\<rparr>) q = stat fs q"
  by (rule stat_root_cong) simp

lemma view_contents_set: "view (contents_set n new e) = view e"
  by (simp add: view_def contents_set_def split: option.splits)

lemma stat_modify_set_other:
  "\<not> prefix (d @ [n]) q \<Longrightarrow> stat (modify_entry fs d (contents_set n new)) q = stat fs q"
proof (cases "q = d")
  case True
  then show ?thesis
    by (simp add: get_modify_same stat_def option.map_comp comp_def view_contents_set)
next
  case False
  assume np: "\<not> prefix (d @ [n]) q"
  show ?thesis
  proof (cases "prefix d q")
    case True
    then obtain r where q: "q = d @ r" by (auto simp: prefix_def)
    with False np obtain c cs where r: "r = c # cs" "c \<noteq> n" by (cases r) auto
    show ?thesis using q r
      by (simp add: stat_def get_modify_below get_append[of fs] contents_set_def update_conv'
          split: option.splits)
  next
    case nd: False
    then show ?thesis by (simp add: stat_modify_other)
  qed
qed

lemma get_modify_set_leaf:
  "get_dir_entry fs d = Some x \<Longrightarrow> contents x = Some c \<Longrightarrow>
   get_dir_entry (modify_entry fs d (contents_set n new)) (d @ n # cs) = walk new cs"
  by (simp add: get_modify_below contents_set_def update_conv')

lemma get_snoc:
  "get_dir_entry fs (d @ [n]) =
     (case get_dir_entry fs d of
        None \<Rightarrow> None
      | Some x \<Rightarrow> (case contents x of None \<Rightarrow> None | Some c \<Rightarrow> map_of c n))"
  by (simp add: get_append split: option.splits)


lemma stat_None_iff: "stat fs q = None \<longleftrightarrow> get_dir_entry fs q = None"
  by (simp add: stat_def)

lemma stat_SomeD: "stat fs q = Some (a, b) \<Longrightarrow> \<exists>e. get_dir_entry fs q = Some e \<and> attrs e = a \<and> (contents e = None) = b"
  by (auto simp: stat_def view_def)

lemma open_file_snoc:
  "open_file fs (d @ [n]) m =
     (case stat fs d of
        None \<Rightarrow> (Inl ResourceNotFoundError, fs)
      | Some (pa, pnone) \<Rightarrow>
          if etype pa \<noteq> Dir then (Inl ResourceNotFoundError, fs)
          else if pnone then (Inl TypeError, fs)
          else if CHR ''r'' \<in> set m \<or> CHR ''a'' \<in> set m then
            (case stat fs (d @ [n]) of
               None \<Rightarrow> (Inl ResourceNotFoundError, fs)
             | Some (fa, fnone) \<Rightarrow>
                 if CHR ''a'' \<in> set m \<and> locks fa > 0 then (Inl ResourceLockedError, fs)
                 else open_handle fs (d @ [n]) d n (data fa) m)
          else if CHR ''w'' \<in> set m then
            (case stat fs (d @ [n]) of
               None \<Rightarrow>
                 open_handle
                   ((modify_entry fs d
                       (contents_set n (make_dir_entry (next_ident fs) (now fs) File n)))
                    \<lparr>next_ident := next_ident fs + 1\<rparr>)
                   (d @ [n]) d n None m
             | Some (fa, fnone) \<Rightarrow>
                 if locks fa > 0 then (Inl ResourceLockedError, fs)
                 else open_handle fs (d @ [n]) d n None m)
          else (Inr None, fs))"
  by (simp add: open_file_def pathsplit_snoc stat_def get_snoc view_def isdir_entry_def
      islocked_def split: option.splits)

lemma open_handle_spec:
  assumes "stat fs (d @ [n]) = Some (a, b)"
  shows "\<exists>s1. open_handle fs (d @ [n]) d n v m = (Inr (Some (next_file fs)), s1)
            \<and> (\<forall>q. stat s1 q =
                  (if q = d @ [n]
                   then Some (a\<lparr>accessed_time := now fs, locks := locks a + 1,
                                 open_files := open_files a @ [next_file fs]\<rparr>, b)
                   else stat fs q))
            \<and> files s1 = (files fs)(next_file fs \<mapsto> MemoryFile_init (d @ [n]) v m)
            \<and> next_file s1 = next_file fs + 1
            \<and> next_ident s1 = next_ident fs \<and> now s1 = now fs"
proof -
  let ?fs1 = "modify_entry fs (d @ [n]) (map_attrs (\<lambda>a. a\<lparr>accessed_time := now fs\<rparr>))"
  have "stat ?fs1 (d @ [n]) \<noteq> None" using assms by (simp add: stat_modify_attrs)
  then obtain e where e: "get_dir_entry ?fs1 (d @ [n]) = Some e"
    by (auto simp: stat_None_iff)
  show ?thesis using assms
    by (simp add: open_handle_def Let_def lock_dir_entry_def e stat_modify_attrs)
qed


lemma write_spec:
  assumes "files fs h = Some f" "\<not> sio_closed (mem_file f)" "stat fs (path f) = Some (a, b)"
  shows "\<exists>s1 m. MemoryFile_write fs h d = (Inr (), s1)
            \<and> sio_write (mem_file f) d = Inr m
            \<and> (\<forall>q. stat s1 q =
                  (if q = path f then Some (a\<lparr>modified_time := now fs\<rparr>, b) else stat fs q))
            \<and> files s1 = (files fs)(h \<mapsto> f\<lparr>mem_file := m\<rparr>)
            \<and> next_file s1 = next_file fs
            \<and> next_ident s1 = next_ident fs \<and> now s1 = now fs"
proof -
  obtain e where e: "get_dir_entry fs (path f) = Some e"
    using assms(3) by (auto dest: stat_SomeD)
  show ?thesis using assms
    by (simp add: MemoryFile_write_def on_modify_memory_file_def e sio_write_def
        stat_modify_attrs)
qed

lemma close_spec:
  assumes "files fs h = Some f" "\<not> closed f" "\<not> sio_closed (mem_file f)"
    and "stat fs (path f) = Some (a, b)" "h \<in> set (open_files a)" "locks a \<ge> 1"
  shows "\<exists>s1. MemoryFile_close fs h = (Inr (), s1)
            \<and> (\<forall>q. stat s1 q =
                  (if q = path f
                   then Some (a\<lparr>data := Some (buf (mem_file f)),
                                 open_files := remove1 h (open_files a),
                                 locks := locks a - 1\<rparr>, b)
                   else stat fs q))
            \<and> files s1 = (files fs)(h \<mapsto> f\<lparr>mem_file := sio_close (mem_file f), closed := True\<rparr>)
            \<and> next_file s1 = next_file fs
            \<and> next_ident s1 = next_ident fs \<and> now s1 = now fs"
proof -
  let ?p = "path f"
  let ?v = "buf (mem_file f)"
  let ?fs1 = "modify_entry fs ?p (map_attrs (\<lambda>a. a\<lparr>data := Some ?v\<rparr>))"
  let ?fs2 = "modify_entry ?fs1 ?p
                (map_attrs (\<lambda>a. a\<lparr>open_files := remove1 h (open_files a)\<rparr>))"
  obtain e where e: "get_dir_entry fs ?p = Some e" "attrs e = a"
    using assms(4) by (auto dest: stat_SomeD)
  have "stat ?fs2 ?p = Some (a\<lparr>data := Some ?v, open_files := remove1 h (open_files a)\<rparr>, b)"
    using assms(4) by (simp add: stat_modify_attrs)
  then obtain e2 where e2: "get_dir_entry ?fs2 ?p = Some e2" "locks (attrs e2) = locks a"
    by (auto dest: stat_SomeD)
  have u: "unlock_dir_entry ?fs2 ?p =
          (Inr (), modify_entry ?fs2 ?p (map_attrs (\<lambda>a. a\<lparr>locks := locks a - 1\<rparr>)))"
    using e2 assms(6) by (simp add: unlock_dir_entry_def)
  have oc: "on_close_memory_file fs h ?p ?v =
          (Inr (), modify_entry ?fs2 ?p (map_attrs (\<lambda>a. a\<lparr>locks := locks a - 1\<rparr>)))"
    using e assms(5) u by (simp add: on_close_memory_file_def Let_def)
  show ?thesis using assms(1-4)
    by (simp add: MemoryFile_close_def sio_getvalue_def oc stat_modify_attrs)
qed

lemma read_spec:
  assumes "files fs h = Some f" "\<not> sio_closed (mem_file f)"
  shows "\<exists>s1. MemoryFile_read fs h None = (Inr (drop (pos (mem_file f)) (buf (mem_file f))), s1)
            \<and> root s1 = root fs"
  using assms by (simp add: MemoryFile_read_def sio_read_def Let_def)

subsection \<open>Opening a directory\<close>

text \<open>
  C1.  The spec: for every path that resolves to a Directory node and every mode,
  \<open>open\<close> never returns a handle.  The source tests the type of the parent only, never
  of the leaf: after \<open>makedir d\<close> on a fresh filesystem, \<open>open d\<close> returns the
  handle 0 in read, in write and in append mode.
\<close>

theorem open_directory_returns_handle:
  "let fs1 = snd (makedir (MemoryFS_init 0) [''d''] False False)
   in isdir fs1 [''d'']
      \<and> fst (open_file fs1 [''d''] ''r'') = Inr (Some 0)
      \<and> fst (open_file fs1 [''d''] ''w'') = Inr (Some 0)
      \<and> fst (open_file fs1 [''d''] ''a'') = Inr (Some 0)"
  by code_simp

subsection \<open>makedir below a file\<close>

text \<open>
  C6.  The spec: when the parent chain of the path contains a File node, \<open>makedir\<close>
  fails with "resource invalid", non-recursively when the immediate parent is a File.
  The recursive branch tests \<^verbatim>\<open>parent_dir.isfile()\<close>; the non-recursive branch does
  not, and the lookup in the \<^verbatim>\<open>contents\<close> of the file, which is \<^verbatim>\<open>None\<close>, escapes as an
  \<^verbatim>\<open>AttributeError\<close>.
\<close>

theorem makedir_nonrecursive_below_file:
  "let fs1 = snd (open_file (MemoryFS_init 0) [''f''] ''w'')
   in isfile fs1 [''f'']
      \<and> fst (makedir fs1 [''f'', ''x''] False False) = Inl AttributeError
      \<and> fst (makedir fs1 [''f'', ''x''] True False) = Inl ResourceInvalidError"
  by code_simp

subsection \<open>Write, close, read\<close>

lemma init_write_mode:
  assumes "CHR ''w'' \<in> set wm" "CHR ''a'' \<notin> set wm"
  shows "MemoryFile_init p None wm =
           \<lparr>closed = False, path = p, mode = wm, mem_file = StringIO_new []\<rparr>"
  using assms by (simp add: MemoryFile_init_def check_mode_def seeded_def StringIO_new_def)

lemma init_read_mode:
  assumes "CHR ''r'' \<in> set rm" "CHR ''a'' \<notin> set rm" "CHR ''w'' \<notin> set rm"
  shows "MemoryFile_init p (Some v) rm =
           \<lparr>closed = False, path = p, mode = rm, mem_file = StringIO_new v\<rparr>"
  using assms by (simp add: MemoryFile_init_def check_mode_def seeded_def StringIO_new_def)

lemma init_append_mode:
  assumes "CHR ''a'' \<in> set am" "CHR ''+'' \<notin> set am"
  shows "MemoryFile_init p (Some v) am =
           \<lparr>closed = False, path = p, mode = am, mem_file = seeded v\<rparr>"
  using assms by (simp add: MemoryFile_init_def check_mode_def)

lemma sio_write_new: "sio_write (StringIO_new []) d = Inr (seeded d)"
  by (simp add: sio_write_def StringIO_new_def seeded_def)

lemma sio_write_seeded: "sio_write (seeded v) d = Inr (seeded (v @ d))"
  by (simp add: sio_write_def StringIO_new_def seeded_def)

lemma write_close_commits:
  assumes parent: "get_dir_entry fs d = Some parent" "isdir_entry parent" "contents parent = Some c"
    and leaf: "map_of c n = None \<or>
               (\<exists>e. map_of c n = Some e \<and> isfile_entry e \<and> locks (attrs e) = 0)"
    and wm: "CHR ''w'' \<in> set wm" "CHR ''r'' \<notin> set wm" "CHR ''a'' \<notin> set wm"
  shows "\<exists>h s1 s2 s3 a3 b3.
           open_file fs (d @ [n]) wm = (Inr (Some h), s1)
         \<and> MemoryFile_write s1 h b = (Inr (), s2)
         \<and> MemoryFile_close s2 h = (Inr (), s3)
         \<and> stat s3 d = Some (attrs parent, False)
         \<and> stat s3 (d @ [n]) = Some (a3, b3)
         \<and> data a3 = Some b \<and> locks a3 = 0 \<and> etype a3 = File"
proof -
  let ?p = "d @ [n]"
  let ?h = "next_file fs"
  have sd: "stat fs d = Some (attrs parent, False)" "etype (attrs parent) = Dir"
    using parent by (simp_all add: stat_def view_def isdir_entry_def)
  have sp: "stat fs ?p = map_option view (map_of c n)"
    using parent by (simp add: stat_def get_snoc)
  have "\<exists>s1 a bb. open_file fs ?p wm = (Inr (Some ?h), s1)
          \<and> stat s1 ?p = Some (a, bb) \<and> locks a = 1 \<and> etype a = File
          \<and> ?h \<in> set (open_files a)
          \<and> stat s1 d = stat fs d
          \<and> files s1 ?h = Some (MemoryFile_init ?p None wm)"
  proof (cases "map_of c n")
    case None
    let ?new = "make_dir_entry (next_ident fs) (now fs) File n"
    let ?fs0 = "(modify_entry fs d (contents_set n ?new))\<lparr>next_ident := next_ident fs + 1\<rparr>"
    have g: "get_dir_entry ?fs0 ?p = Some ?new"
      using get_modify_set_leaf[OF parent(1,3), of n ?new "[]"]
      by (simp add: get_dir_entry_def modify_entry_def)
    then have s0: "stat ?fs0 ?p = Some (view ?new)" by (simp add: stat_def)
    have d0: "stat ?fs0 d = stat fs d" by (simp add: stat_modify_set_other)
    obtain a0 b0 where v: "view ?new = (a0, b0)" by (cases "view ?new")
    then have l0: "locks a0 = 0" "etype a0 = File" by (auto simp: view_def make_dir_entry_def)
    from open_handle_spec[of ?fs0 d n a0 b0 None wm] s0 v
    obtain s1 where s1: "open_handle ?fs0 ?p d n None wm = (Inr (Some (next_file ?fs0)), s1)"
      "\<forall>q. stat s1 q = (if q = ?p then Some (a0\<lparr>accessed_time := now ?fs0, locks := locks a0 + 1,
                                 open_files := open_files a0 @ [next_file ?fs0]\<rparr>, b0)
                   else stat ?fs0 q)"
      "files s1 = (files ?fs0)(next_file ?fs0 \<mapsto> MemoryFile_init ?p None wm)"
      by auto
    have "open_file fs ?p wm = (Inr (Some ?h), s1)"
      using sd sp None wm s1(1) by (simp add: open_file_snoc)
    moreover have "stat s1 d = stat fs d" using s1(2) d0 by simp
    ultimately show ?thesis using s1(2,3) l0 by simp
  next
    case (Some e)
    with leaf have le: "locks (attrs e) = 0" "etype (attrs e) = File"
      by (auto simp: isfile_entry_def)
    have s0: "stat fs ?p = Some (attrs e, contents e = None)"
      using sp Some by (simp add: view_def)
    from open_handle_spec[OF s0, of None wm]
    obtain s1 where s1: "open_handle fs ?p d n None wm = (Inr (Some ?h), s1)"
      "\<forall>q. stat s1 q = (if q = ?p then Some ((attrs e)\<lparr>accessed_time := now fs, locks := locks (attrs e) + 1,
                                 open_files := open_files (attrs e) @ [?h]\<rparr>, contents e = None)
                   else stat fs q)"
      "files s1 = (files fs)(?h \<mapsto> MemoryFile_init ?p None wm)"
      by auto
    have "open_file fs ?p wm = (Inr (Some ?h), s1)"
      using sd s0 le wm s1(1) by (simp add: open_file_snoc)
    moreover have "stat s1 d = stat fs d" using s1(2) by simp
    ultimately show ?thesis using s1(2,3) le by simp
  qed
  then obtain s1 a1 b1 where s1: "open_file fs ?p wm = (Inr (Some ?h), s1)"
      "stat s1 ?p = Some (a1, b1)" "locks a1 = 1" "etype a1 = File" "?h \<in> set (open_files a1)"
      "stat s1 d = stat fs d" "files s1 ?h = Some (MemoryFile_init ?p None wm)"
    by blast
  let ?f1 = "\<lparr>closed = False, path = ?p, mode = wm, mem_file = StringIO_new []\<rparr>"
  have f1: "files s1 ?h = Some ?f1" using s1(7) wm by (simp add: init_write_mode)
  have nc1: "\<not> sio_closed (mem_file ?f1)" by (simp add: StringIO_new_def)
  from write_spec[OF f1 nc1 , of a1 b1 b] s1(2)
  obtain s2 where s2: "MemoryFile_write s1 ?h b = (Inr (), s2)"
      "\<forall>q. stat s2 q = (if q = ?p then Some (a1\<lparr>modified_time := now s1\<rparr>, b1) else stat s1 q)"
      "files s2 = (files s1)(?h \<mapsto> ?f1\<lparr>mem_file := seeded b\<rparr>)"
    by (auto simp: sio_write_new)
  let ?f2 = "?f1\<lparr>mem_file := seeded b\<rparr>"
  have c2: "files s2 ?h = Some ?f2" "\<not> closed ?f2" "\<not> sio_closed (mem_file ?f2)"
    using s2(3) by (simp_all add: seeded_def StringIO_new_def)
  have p2: "stat s2 (path ?f2) = Some (a1\<lparr>modified_time := now s1\<rparr>, b1)"
    using s2(2) by simp
  from close_spec[OF c2 p2] s1(3,5)
  obtain s3 where s3: "MemoryFile_close s2 ?h = (Inr (), s3)"
      "\<forall>q. stat s3 q = (if q = path ?f2
              then Some (a1\<lparr>modified_time := now s1, data := Some (buf (mem_file ?f2)),
                      open_files := remove1 ?h (open_files (a1\<lparr>modified_time := now s1\<rparr>)),
                      locks := locks (a1\<lparr>modified_time := now s1\<rparr>) - 1\<rparr>, b1)
              else stat s2 q)"
    by auto
  have d3: "stat s3 d = Some (attrs parent, False)"
    using s3(2) s2(2) s1(6) sd by simp
  obtain a3 where a3: "stat s3 ?p = Some (a3, b1)" "data a3 = Some b" "locks a3 = 0"
      "etype a3 = File"
    using s3(2) s1(3,4) by (simp add: seeded_def StringIO_new_def)
  show ?thesis using s1(1) s2(1) s3(1) d3 a3 by blast
qed

lemma append_close_commits:
  assumes sd: "stat fs d = Some (pa, False)" "etype pa = Dir"
    and sp: "stat fs (d @ [n]) = Some (a, bb)" "data a = Some b1" "locks a = 0"
    and am: "CHR ''a'' \<in> set am" "CHR ''+'' \<notin> set am"
  shows "\<exists>h s1 s2 s3 a3.
           open_file fs (d @ [n]) am = (Inr (Some h), s1)
         \<and> MemoryFile_write s1 h b2 = (Inr (), s2)
         \<and> MemoryFile_close s2 h = (Inr (), s3)
         \<and> stat s3 d = Some (pa, False)
         \<and> stat s3 (d @ [n]) = Some (a3, bb)
         \<and> data a3 = Some (b1 @ b2) \<and> locks a3 = 0 \<and> etype a3 = etype a"
proof -
  let ?p = "d @ [n]"
  let ?h = "next_file fs"
  from open_handle_spec[OF sp(1), of "data a" am]
  obtain s1 where s1: "open_handle fs ?p d n (data a) am = (Inr (Some ?h), s1)"
      "\<forall>q. stat s1 q = (if q = ?p then Some (a\<lparr>accessed_time := now fs, locks := locks a + 1,
                                 open_files := open_files a @ [?h]\<rparr>, bb)
                   else stat fs q)"
      "files s1 = (files fs)(?h \<mapsto> MemoryFile_init ?p (data a) am)"
    by auto
  have o1: "open_file fs ?p am = (Inr (Some ?h), s1)"
    using sd sp am s1(1) by (simp add: open_file_snoc)
  let ?a1 = "a\<lparr>accessed_time := now fs, locks := locks a + 1,
                open_files := open_files a @ [?h]\<rparr>"
  let ?f1 = "\<lparr>closed = False, path = ?p, mode = am, mem_file = seeded b1\<rparr>"
  have f1: "files s1 ?h = Some ?f1" using s1(3) sp(2) am by (simp add: init_append_mode)
  have nc1: "\<not> sio_closed (mem_file ?f1)" by (simp add: seeded_def StringIO_new_def)
  have p1: "stat s1 (path ?f1) = Some (?a1, bb)" using s1(2) by simp
  from write_spec[OF f1 nc1 p1, of b2]
  obtain s2 where s2: "MemoryFile_write s1 ?h b2 = (Inr (), s2)"
      "\<forall>q. stat s2 q = (if q = ?p then Some (?a1\<lparr>modified_time := now s1\<rparr>, bb) else stat s1 q)"
      "files s2 = (files s1)(?h \<mapsto> ?f1\<lparr>mem_file := seeded (b1 @ b2)\<rparr>)"
    by (auto simp: sio_write_seeded)
  let ?f2 = "?f1\<lparr>mem_file := seeded (b1 @ b2)\<rparr>"
  have c2: "files s2 ?h = Some ?f2" "\<not> closed ?f2" "\<not> sio_closed (mem_file ?f2)"
    using s2(3) by (simp_all add: seeded_def StringIO_new_def)
  have p2: "stat s2 (path ?f2) = Some (?a1\<lparr>modified_time := now s1\<rparr>, bb)"
    using s2(2) by simp
  from close_spec[OF c2 p2] sp(3)
  obtain s3 where s3: "MemoryFile_close s2 ?h = (Inr (), s3)"
      "\<forall>q. stat s3 q = (if q = path ?f2
              then Some (?a1\<lparr>modified_time := now s1, data := Some (buf (mem_file ?f2)),
                      open_files := remove1 ?h (open_files (?a1\<lparr>modified_time := now s1\<rparr>)),
                      locks := locks (?a1\<lparr>modified_time := now s1\<rparr>) - 1\<rparr>, bb)
              else stat s2 q)"
    by auto
  have d3: "stat s3 d = Some (pa, False)"
    using s3(2) s2(2) s1(2) sd by simp
  obtain a3 where a3: "stat s3 ?p = Some (a3, bb)" "data a3 = Some (b1 @ b2)" "locks a3 = 0"
      "etype a3 = etype a"
    using s3(2) sp(3) by (simp add: seeded_def StringIO_new_def)
  show ?thesis using o1 s2(1) s3(1) d3 a3 by blast
qed

lemma read_back:
  assumes sd: "stat fs d = Some (pa, False)" "etype pa = Dir"
    and sp: "stat fs (d @ [n]) = Some (a, bb)" "data a = Some b"
    and rm: "CHR ''r'' \<in> set rm" "CHR ''a'' \<notin> set rm" "CHR ''w'' \<notin> set rm"
  shows "\<exists>h s4 s5. open_file fs (d @ [n]) rm = (Inr (Some h), s4)
                 \<and> MemoryFile_read s4 h None = (Inr b, s5)"
proof -
  let ?p = "d @ [n]"
  from open_handle_spec[OF sp(1), of "data a" rm]
  obtain s4 where s4: "open_handle fs ?p d n (data a) rm = (Inr (Some (next_file fs)), s4)"
      "files s4 = (files fs)(next_file fs \<mapsto> MemoryFile_init ?p (data a) rm)"
    by auto
  have o4: "open_file fs ?p rm = (Inr (Some (next_file fs)), s4)"
    using sd sp rm s4(1) by (simp add: open_file_snoc)
  let ?f4 = "\<lparr>closed = False, path = ?p, mode = rm, mem_file = StringIO_new b\<rparr>"
  have f4: "files s4 (next_file fs) = Some ?f4"
    using s4(2) sp(2) rm by (simp add: init_read_mode)
  from read_spec[OF f4]
  obtain s5 where s5: "MemoryFile_read s4 (next_file fs) None = (Inr b, s5)"
    by (auto simp: StringIO_new_def)
  show ?thesis using o4 s5 by blast
qed

text \<open>
  C4 as the spec states it: for every path whose parent directory exists, opening it in
  write mode, writing \<open>b\<close>, closing, opening in read mode and reading to the end
  yields \<open>b\<close>.  It fails when the leaf is held open: the write-mode open is refused.
\<close>

theorem write_open_locked_counterexample:
  "let fs1 = snd (open_file (MemoryFS_init 0) [''f''] ''w'')
   in isdir fs1 [] \<and> fst (open_file fs1 [''f''] ''w'') = Inl ResourceLockedError"
  by code_simp

text \<open>
  C4, amended.  Let the parent of the path be a directory, and the leaf be absent or a
  file with lock count 0.  Then opening the path in a write mode (\<open>w\<close>, neither \<open>r\<close>
  nor \<open>a\<close>) succeeds, writing \<open>b\<close> and closing succeed, opening in a read mode
  (\<open>r\<close>, neither \<open>a\<close> nor \<open>w\<close>) succeeds, and reading to the end returns \<open>b\<close>.
\<close>

theorem write_read_roundtrip:
  assumes parent: "get_dir_entry fs d = Some parent" "isdir_entry parent" "contents parent = Some c"
    and leaf: "map_of c n = None \<or>
               (\<exists>e. map_of c n = Some e \<and> isfile_entry e \<and> locks (attrs e) = 0)"
    and wm: "CHR ''w'' \<in> set wm" "CHR ''r'' \<notin> set wm" "CHR ''a'' \<notin> set wm"
    and rm: "CHR ''r'' \<in> set rm" "CHR ''a'' \<notin> set rm" "CHR ''w'' \<notin> set rm"
  shows "\<exists>h s1 s2 s3 h' s4 s5.
           open_file fs (d @ [n]) wm = (Inr (Some h), s1)
         \<and> MemoryFile_write s1 h b = (Inr (), s2)
         \<and> MemoryFile_close s2 h = (Inr (), s3)
         \<and> open_file s3 (d @ [n]) rm = (Inr (Some h'), s4)
         \<and> MemoryFile_read s4 h' None = (Inr b, s5)"
proof -
  from write_close_commits[OF parent leaf wm, of b]
  obtain h s1 s2 s3 a3 b3 where w:
    "open_file fs (d @ [n]) wm = (Inr (Some h), s1)"
    "MemoryFile_write s1 h b = (Inr (), s2)"
    "MemoryFile_close s2 h = (Inr (), s3)"
    "stat s3 d = Some (attrs parent, False)"
    "stat s3 (d @ [n]) = Some (a3, b3)" "data a3 = Some b"
    by blast
  have "etype (attrs parent) = Dir" using parent(2) by (simp add: isdir_entry_def)
  from read_back[OF w(4) this w(5,6) rm] w(1-3) show ?thesis by blast
qed

theorem write_read_roundtrip_witness:
  "get_dir_entry (MemoryFS_init 0) [] = Some (root (MemoryFS_init 0))
   \<and> isdir_entry (root (MemoryFS_init 0))
   \<and> contents (root (MemoryFS_init 0)) = Some []
   \<and> (\<exists>h s1 s2 s3 h' s4 s5.
           open_file (MemoryFS_init 0) [''f''] ''w'' = (Inr (Some h), s1)
         \<and> MemoryFile_write s1 h ''hello'' = (Inr (), s2)
         \<and> MemoryFile_close s2 h = (Inr (), s3)
         \<and> open_file s3 [''f''] ''r'' = (Inr (Some h'), s4)
         \<and> MemoryFile_read s4 h' None = (Inr ''hello'', s5))"
  using write_read_roundtrip[of "MemoryFS_init 0" "[]" "root (MemoryFS_init 0)" "[]"
      "''f''" "''w''" "''r''" "''hello''"]
  by (simp add: get_dir_entry_def iteratepath_def MemoryFS_init_def make_dir_entry_def
      isdir_entry_def)

text \<open>
  The whole sequence from a state in which the file can be written: write-mode open,
  write \<open>b1\<close>, close, append-mode open, write \<open>b2\<close>, close, read-mode open, read.
\<close>

lemma write_append_read_sequence:
  assumes parent: "get_dir_entry fs d = Some parent" "isdir_entry parent" "contents parent = Some c"
    and leaf: "map_of c n = None \<or>
               (\<exists>e. map_of c n = Some e \<and> isfile_entry e \<and> locks (attrs e) = 0)"
    and wm: "CHR ''w'' \<in> set wm" "CHR ''r'' \<notin> set wm" "CHR ''a'' \<notin> set wm"
    and am: "CHR ''a'' \<in> set am" "CHR ''+'' \<notin> set am"
    and rm: "CHR ''r'' \<in> set rm" "CHR ''a'' \<notin> set rm" "CHR ''w'' \<notin> set rm"
  shows "\<exists>h1 s1 s2 s3 h2 s4 s5 s6 h3 s7 s8.
           open_file fs (d @ [n]) wm = (Inr (Some h1), s1)
         \<and> MemoryFile_write s1 h1 b1 = (Inr (), s2)
         \<and> MemoryFile_close s2 h1 = (Inr (), s3)
         \<and> open_file s3 (d @ [n]) am = (Inr (Some h2), s4)
         \<and> MemoryFile_write s4 h2 b2 = (Inr (), s5)
         \<and> MemoryFile_close s5 h2 = (Inr (), s6)
         \<and> open_file s6 (d @ [n]) rm = (Inr (Some h3), s7)
         \<and> MemoryFile_read s7 h3 None = (Inr (b1 @ b2), s8)"
proof -
  from write_close_commits[OF parent leaf wm, of b1]
  obtain h1 s1 s2 s3 a3 b3 where w:
    "open_file fs (d @ [n]) wm = (Inr (Some h1), s1)"
    "MemoryFile_write s1 h1 b1 = (Inr (), s2)"
    "MemoryFile_close s2 h1 = (Inr (), s3)"
    "stat s3 d = Some (attrs parent, False)"
    "stat s3 (d @ [n]) = Some (a3, b3)" "data a3 = Some b1" "locks a3 = 0"
    by blast
  have dir: "etype (attrs parent) = Dir" using parent(2) by (simp add: isdir_entry_def)
  from append_close_commits[OF w(4) dir w(5,6,7) am, of b2]
  obtain h2 s4 s5 s6 a6 where a:
    "open_file s3 (d @ [n]) am = (Inr (Some h2), s4)"
    "MemoryFile_write s4 h2 b2 = (Inr (), s5)"
    "MemoryFile_close s5 h2 = (Inr (), s6)"
    "stat s6 d = Some (attrs parent, False)"
    "stat s6 (d @ [n]) = Some (a6, b3)" "data a6 = Some (b1 @ b2)"
    by blast
  from read_back[OF a(4) dir a(5,6) rm]
  obtain h3 s7 s8 where r:
    "open_file s6 (d @ [n]) rm = (Inr (Some h3), s7)"
    "MemoryFile_read s7 h3 None = (Inr (b1 @ b2), s8)"
    by blast
  show ?thesis using w(1-3) a(1-3) r by blast
qed

text \<open>
  C5 as the spec states it: for every file whose committed content is \<open>b1\<close>, opening
  it in append mode, writing \<open>b2\<close>, closing and reading back yields \<open>b1 @ b2\<close>.  The
  append-mode open is refused while any handle, a reader included, holds the file.
\<close>

theorem append_open_held_counterexample:
  "let fs1 = snd (open_file example_closed [''f''] ''r'')
   in map_option (\<lambda>e. (etype (attrs e), data (attrs e))) (get_dir_entry fs1 [''f''])
        = Some (File, Some ''ab'')
      \<and> fst (open_file fs1 [''f''] ''a'') = Inl ResourceLockedError"
  by code_simp

text \<open>
  C5, amended.  Let the file have the committed content \<open>b1\<close> and lock count 0 (as it
  has after it was written in write mode and closed, by \<open>write_close_commits\<close>), in a
  directory.  Then opening it in an append mode (\<open>a\<close> without \<open>+\<close>; with \<open>+\<close> the
  buffer is positioned at the start), writing \<open>b2\<close> and closing succeed, a read-mode
  open (\<open>r\<close> without \<open>a\<close> or \<open>w\<close>) succeeds, and reading to the end yields \<open>b1 @ b2\<close>.
\<close>

theorem append_roundtrip:
  assumes parent: "get_dir_entry fs d = Some parent" "isdir_entry parent" "contents parent = Some c"
    and leaf: "map_of c n = Some e" "isfile_entry e" "data (attrs e) = Some b1"
      "locks (attrs e) = 0"
    and am: "CHR ''a'' \<in> set am" "CHR ''+'' \<notin> set am"
    and rm: "CHR ''r'' \<in> set rm" "CHR ''a'' \<notin> set rm" "CHR ''w'' \<notin> set rm"
  shows "\<exists>h s1 s2 s3 h' s4 s5.
           open_file fs (d @ [n]) am = (Inr (Some h), s1)
         \<and> MemoryFile_write s1 h b2 = (Inr (), s2)
         \<and> MemoryFile_close s2 h = (Inr (), s3)
         \<and> open_file s3 (d @ [n]) rm = (Inr (Some h'), s4)
         \<and> MemoryFile_read s4 h' None = (Inr (b1 @ b2), s5)"
proof -
  have sd: "stat fs d = Some (attrs parent, False)" "etype (attrs parent) = Dir"
    using parent by (simp_all add: stat_def view_def isdir_entry_def)
  have sp: "stat fs (d @ [n]) = Some (attrs e, contents e = None)"
    using parent leaf(1) by (simp add: stat_def get_snoc view_def)
  from append_close_commits[OF sd sp leaf(3,4) am, of b2]
  obtain h s1 s2 s3 a3 where a:
    "open_file fs (d @ [n]) am = (Inr (Some h), s1)"
    "MemoryFile_write s1 h b2 = (Inr (), s2)"
    "MemoryFile_close s2 h = (Inr (), s3)"
    "stat s3 d = Some (attrs parent, False)"
    "stat s3 (d @ [n]) = Some (a3, contents e = None)" "data a3 = Some (b1 @ b2)"
    by blast
  from read_back[OF a(4) sd(2) a(5,6) rm]
  obtain h' s4 s5 where r:
    "open_file s3 (d @ [n]) rm = (Inr (Some h'), s4)"
    "MemoryFile_read s4 h' None = (Inr (b1 @ b2), s5)"
    by blast
  show ?thesis using a(1-3) r by blast
qed

theorem append_roundtrip_witness:
  "isdir example_closed []
   \<and> map_option (\<lambda>e. (etype (attrs e), data (attrs e), locks (attrs e)))
       (get_dir_entry example_closed [''f'']) = Some (File, Some ''ab'', 0)
   \<and> (\<exists>h s1 s2 s3 h' s4 s5.
           open_file example_closed [''f''] ''a'' = (Inr (Some h), s1)
         \<and> MemoryFile_write s1 h ''cd'' = (Inr (), s2)
         \<and> MemoryFile_close s2 h = (Inr (), s3)
         \<and> open_file s3 [''f''] ''r'' = (Inr (Some h'), s4)
         \<and> MemoryFile_read s4 h' None = (Inr ''abcd'', s5))"
proof -
  have d: "isdir example_closed []" by code_simp
  have l: "map_option (\<lambda>e. (etype (attrs e), data (attrs e), locks (attrs e)))
       (get_dir_entry example_closed [''f'']) = Some (File, Some ''ab'', 0)" by code_simp
  have p: "get_dir_entry example_closed [] = Some (root example_closed)"
    by (simp add: get_dir_entry_def iteratepath_def)
  have pd: "isdir_entry (root example_closed)"
    using d by (simp add: isdir_def normpath_def p)
  from l obtain e where e: "get_dir_entry example_closed ([] @ [''f'']) = Some e"
      "etype (attrs e) = File" "data (attrs e) = Some ''ab''" "locks (attrs e) = 0"
    by auto
  from e(1) obtain c where c: "contents (root example_closed) = Some c" "map_of c ''f'' = Some e"
    unfolding get_snoc p by (auto split: option.splits)
  have fe: "isfile_entry e" using e(2) by (simp add: isfile_entry_def)
  from append_roundtrip[OF p pd c(1) c(2) fe e(3,4), of "''a''" "''r''" "''cd''"]
  show ?thesis using d l by simp
qed

subsection \<open>Recursive removedir\<close>

lemma del_entry_spec:
  assumes "get_dir_entry fs (d @ [n]) \<noteq> None"
  shows "del_entry fs d n = (Inr (), modify_entry fs d (contents_del n))"
  using assms by (auto simp: del_entry_def get_snoc split: option.splits)

lemma removedir_loop_snoc:
  "removedir_loop fs (d @ [n]) =
     (case del_entry fs d n of
        (Inl e, fs') \<Rightarrow> (Inl e, fs')
      | (Inr u, fs') \<Rightarrow> removedir_loop fs' d)"
  by (subst removedir_loop.simps) (simp add: pathsplit_snoc)

lemma removedir_loop_spec:
  "get_dir_entry fs p \<noteq> None \<Longrightarrow>
   \<exists>fs'. removedir_loop fs p = (Inr (), fs')
       \<and> (\<forall>q. stat fs' q = (if p \<noteq> [] \<and> prefix [hd p] q then None else stat fs q))
       \<and> files fs' = files fs"
proof (induction p arbitrary: fs rule: rev_induct)
  case Nil
  then show ?case by (subst removedir_loop.simps) simp
next
  case (snoc n d)
  let ?fs1 = "modify_entry fs d (contents_del n)"
  have del: "del_entry fs d n = (Inr (), ?fs1)" using snoc.prems by (rule del_entry_spec)
  have "stat ?fs1 d = stat fs d" by (simp add: stat_modify_del)
  moreover have "stat fs d \<noteq> None"
    using snoc.prems by (auto simp: stat_None_iff get_snoc split: option.splits)
  ultimately have "get_dir_entry ?fs1 d \<noteq> None" by (metis stat_None_iff)
  from snoc.IH[OF this]
  obtain fs' where l: "removedir_loop ?fs1 d = (Inr (), fs')"
    "\<forall>q. stat fs' q = (if d \<noteq> [] \<and> prefix [hd d] q then None else stat ?fs1 q)"
    "files fs' = files ?fs1"
    by blast
  have "stat fs' q = (if prefix [hd (d @ [n])] q then None else stat fs q)" for q
  proof (cases d)
    case Nil
    then show ?thesis using l(2) by (simp add: stat_modify_del)
  next
    case (Cons c cs)
    then show ?thesis using l(2) by (auto simp: stat_modify_del prefix_def)
  qed
  then show ?case using l(1,3) del by (simp add: removedir_loop_snoc)
qed

text \<open>
  C9.  Whenever \<open>removedir\<close> with \<open>recursive\<close> set succeeds on \<open>p\<close>, the loop has deleted,
  for every non-empty prefix of \<open>p\<close> from the longest to the shortest, the last name of
  the prefix from the children of the directory before it.  In the state it leaves, no
  non-empty prefix of \<open>p\<close> resolves any more (the whole chain is gone, not only the
  leaf), and every path that does not start with the first name of \<open>p\<close> resolves as
  before.
\<close>

theorem removedir_recursive_removes_chain:
  assumes "removedir fs p True force = (Inr (), fs')"
  shows "(\<forall>k. 0 < k \<and> k \<le> length p \<longrightarrow> get_dir_entry fs' (take k p) = None)
       \<and> (\<forall>q. \<not> prefix (take 1 p) q \<or> p = [] \<longrightarrow> stat fs' q = stat fs q)"
proof -
  from assms have r: "get_dir_entry fs p \<noteq> None" "removedir_loop fs p = (Inr (), fs')"
    by (auto simp: removedir_def split: option.splits if_splits)
  from removedir_loop_spec[OF r(1)] r(2)
  have s: "stat fs' q = (if p \<noteq> [] \<and> prefix [hd p] q then None else stat fs q)" for q
    by auto
  have "get_dir_entry fs' (take k p) = None" if "0 < k" "k \<le> length p" for k
  proof -
    from that obtain c cs where p: "p = c # cs" by (cases p) auto
    from that obtain j where "k = Suc j" by (cases k) auto
    then have "prefix [hd p] (take k p)" by (simp add: p)
    then show ?thesis using s[of "take k p"] p by (simp add: stat_None_iff)
  qed
  moreover have "stat fs' q = stat fs q" if "\<not> prefix (take 1 p) q \<or> p = []" for q
    using that s[of q] by (cases p) auto
  ultimately show ?thesis by blast
qed

theorem removedir_recursive_removes_chain_witness:
  "removedir (snd (makedir (MemoryFS_init 0) [''a'', ''b'', ''c''] True False))
       [''a'', ''b'', ''c''] True False
     = (Inr (), snd (removedir (snd (makedir (MemoryFS_init 0) [''a'', ''b'', ''c''] True False))
                       [''a'', ''b'', ''c''] True False))
   \<and> isdir (snd (makedir (MemoryFS_init 0) [''a'', ''b'', ''c''] True False)) [''a'', ''b'', ''c'']
   \<and> get_dir_entry (snd (removedir (snd (makedir (MemoryFS_init 0) [''a'', ''b'', ''c''] True False))
                       [''a'', ''b'', ''c''] True False)) [''a''] = None
   \<and> get_dir_entry (snd (removedir (snd (makedir (MemoryFS_init 0) [''a'', ''b'', ''c''] True False))
                       [''a'', ''b'', ''c''] True False)) [''a'', ''b''] = None
   \<and> get_dir_entry (snd (removedir (snd (makedir (MemoryFS_init 0) [''a'', ''b'', ''c''] True False))
                       [''a'', ''b'', ''c''] True False)) [''a'', ''b'', ''c''] = None"
proof -
  let ?X = "snd (makedir (MemoryFS_init 0) [''a'', ''b'', ''c''] True False)"
  let ?p = "[''a'', ''b'', ''c'']"
  have f: "fst (removedir ?X ?p True False) = Inr ()" by code_simp
  have d: "isdir ?X ?p" by code_simp
  have r: "removedir ?X ?p True False = (Inr (), snd (removedir ?X ?p True False))"
    using f by (simp add: prod_eq_iff)
  from removedir_recursive_removes_chain[OF r]
  have k: "\<And>k. 0 < k \<and> k \<le> length ?p \<Longrightarrow>
            get_dir_entry (snd (removedir ?X ?p True False)) (take k ?p) = None"
    by blast
  from k[of 1] k[of 2] k[of 3] r d show ?thesis by simp
qed

subsection \<open>The handle loop of rename\<close>

lemma modify_modify_same: "modify f (modify g r p) p = modify (\<lambda>e. f (g e)) r p"
  by (induction p arbitrary: r) (simp_all add: update_conv' split: option.splits)

lemma map_attrs_data_twice:
  "(\<lambda>e. map_attrs (\<lambda>a. a\<lparr>data := v\<rparr>) (map_attrs (\<lambda>a. a\<lparr>data := w\<rparr>) e)) =
   map_attrs (\<lambda>a. a\<lparr>data := v\<rparr>)"
  by (simp add: fun_eq_iff map_attrs_def)

lemma flush_spec:
  assumes "files fs h = Some f" "\<not> sio_closed (mem_file f)" "get_dir_entry fs (path f) \<noteq> None"
  shows "MemoryFile_flush fs h =
           (Inr (), modify_entry fs (path f) (map_attrs (\<lambda>a. a\<lparr>data := Some (buf (mem_file f))\<rparr>)))"
  using assms
  by (auto simp: MemoryFile_flush_def sio_getvalue_def on_flush_memory_file_def)

lemma get_modify_attrs_None:
  "get_dir_entry (modify_entry fs p (map_attrs g)) q = None \<longleftrightarrow> get_dir_entry fs q = None"
  using stat_modify_attrs[of fs p g q] by (auto simp: stat_def split: if_splits)

lemma root_set_file_path [simp]: "root (fs\<lparr>files := x\<rparr>) = root fs"
  by simp

lemma rename_loop_uniform:
  assumes "get_dir_entry fs src \<noteq> None"
    and "\<forall>h\<in>set hs. \<exists>f. files fs h = Some f \<and> \<not> sio_closed (mem_file f) \<and> path f = src"
    and "distinct hs"
  shows "\<exists>fs'. rename_loop fs dst hs = (Inr (), fs')
          \<and> root fs' =
              (if hs = [] then root fs
               else root (modify_entry fs src
                      (map_attrs (\<lambda>a. a\<lparr>data := Some (buf (mem_file (the (files fs (last hs)))))\<rparr>))))
          \<and> (\<forall>h. files fs' h =
                (if h \<in> set hs then map_option (\<lambda>f. f\<lparr>path := dst\<rparr>) (files fs h)
                 else files fs h))
          \<and> next_file fs' = next_file fs \<and> next_ident fs' = next_ident fs \<and> now fs' = now fs"
  using assms
proof (induction hs arbitrary: fs)
  case Nil
  then show ?case by simp
next
  case (Cons h rest)
  from Cons.prems(2) obtain f where f: "files fs h = Some f" "\<not> sio_closed (mem_file f)"
      "path f = src" by auto
  let ?g = "map_attrs (\<lambda>a. a\<lparr>data := Some (buf (mem_file f))\<rparr>)"
  let ?fs1 = "modify_entry fs src ?g"
  let ?fs2 = "set_file ?fs1 h (f\<lparr>path := dst\<rparr>)"
  have fl: "MemoryFile_flush fs h = (Inr (), ?fs1)"
    using flush_spec[OF f(1,2)] f(3) Cons.prems(1) by simp
  have step: "rename_loop fs dst (h # rest) = rename_loop ?fs2 dst rest"
    using fl f(1) by simp
  have r2: "get_dir_entry ?fs2 src \<noteq> None"
    using Cons.prems(1) by (simp add: get_dir_entry_def get_modify_attrs_None[unfolded get_dir_entry_def])
  have h2: "\<forall>h'\<in>set rest. \<exists>f'. files ?fs2 h' = Some f' \<and> \<not> sio_closed (mem_file f') \<and> path f' = src"
    using Cons.prems(2,3) by auto
  have d2: "distinct rest" using Cons.prems(3) by simp
  from Cons.IH[OF r2 h2 d2]
  obtain fs' where ih: "rename_loop ?fs2 dst rest = (Inr (), fs')"
    "root fs' = (if rest = [] then root ?fs2
               else root (modify_entry ?fs2 src
                      (map_attrs (\<lambda>a. a\<lparr>data := Some (buf (mem_file (the (files ?fs2 (last rest)))))\<rparr>))))"
    "\<forall>h'. files fs' h' = (if h' \<in> set rest then map_option (\<lambda>f. f\<lparr>path := dst\<rparr>) (files ?fs2 h')
                 else files ?fs2 h')"
    "next_file fs' = next_file ?fs2" "next_ident fs' = next_ident ?fs2" "now fs' = now ?fs2"
    by blast
  have last_in: "rest \<noteq> [] \<Longrightarrow> files ?fs2 (last rest) = files fs (last rest)"
    using Cons.prems(3) by (auto dest: last_in_set)
  have root_eq: "root fs' =
              root (modify_entry fs src
                      (map_attrs (\<lambda>a. a\<lparr>data := Some (buf (mem_file (the (files fs (last (h # rest))))))\<rparr>)))"
  proof (cases "rest = []")
    case True
    then show ?thesis using ih(2) f(1) by simp
  next
    case False
    then show ?thesis using ih(2) last_in
      by (simp add: modify_entry_def modify_modify_same map_attrs_data_twice)
  qed
  have files_eq: "files fs' h' = (if h' \<in> set (h # rest) then map_option (\<lambda>f. f\<lparr>path := dst\<rparr>) (files fs h')
                 else files fs h')" for h'
    using ih(3) f(1) Cons.prems(3) by auto
  show ?case using step ih(1,4,5,6) root_eq files_eq by simp
qed

lemma rename_loop_general:
  "rename_loop fs dst hs = (Inr (), fs') \<Longrightarrow>
   map_option (apfst (\<lambda>a. a\<lparr>data := None\<rparr>)) (stat fs' q) =
   map_option (apfst (\<lambda>a. a\<lparr>data := None\<rparr>)) (stat fs q)"
proof (induction hs arbitrary: fs)
  case Nil
  then show ?case by simp
next
  case (Cons h rest)
  from Cons.prems obtain f v where f: "files fs h = Some f"
    and fl: "MemoryFile_flush fs h =
               (Inr (), modify_entry fs (path f) (map_attrs (\<lambda>a. a\<lparr>data := Some v\<rparr>)))"
    by (auto simp: MemoryFile_flush_def on_flush_memory_file_def
        split: option.splits sum.splits prod.splits)
  let ?fs1 = "modify_entry fs (path f) (map_attrs (\<lambda>a. a\<lparr>data := Some v\<rparr>))"
  from Cons.prems fl f have "rename_loop (set_file ?fs1 h (f\<lparr>path := dst\<rparr>)) dst rest = (Inr (), fs')"
    by simp
  from Cons.IH[OF this]
  have "map_option (apfst (\<lambda>a. a\<lparr>data := None\<rparr>)) (stat fs' q) =
        map_option (apfst (\<lambda>a. a\<lparr>data := None\<rparr>)) (stat ?fs1 q)"
    by simp
  also have "\<dots> = map_option (apfst (\<lambda>a. a\<lparr>data := None\<rparr>)) (stat fs q)"
    by (cases "stat fs q") (auto simp: stat_modify_attrs)
  finally show ?case .
qed

lemma get_root_cong: "root fs' = root fs \<Longrightarrow> get_dir_entry fs' q = get_dir_entry fs q"
  by (simp add: get_dir_entry_def)

lemma rename_loop_append:
  "rename_loop fs dst (xs @ ys) =
     (case rename_loop fs dst xs of
        (Inl e, s) \<Rightarrow> (Inl e, s)
      | (Inr u, s) \<Rightarrow> rename_loop s dst ys)"
  by (induction xs arbitrary: fs) (auto split: prod.splits sum.splits option.splits)

subsection \<open>rename onto an existing destination\<close>

text \<open>
  C10.  The spec: whenever \<open>src\<close> and \<open>dst\<close> both resolve, \<open>rename\<close> fails with
  "destination exists", after every handle of \<open>src\<close> has been flushed into the node of
  \<open>src\<close> and repointed.  The source flushes a handle through the handle's recorded path,
  and \<^verbatim>\<open>_on_flush_memory_file\<close> does not test the entry it resolves for \<^verbatim>\<open>None\<close>, as
  \<^verbatim>\<open>_on_close_memory_file\<close> does.  After \<open>rename d e\<close> the handle opened on \<open>d/f\<close> still
  records \<open>d/f\<close>; \<open>rename e/f x\<close> onto the existing \<open>x\<close> then raises \<^verbatim>\<open>AttributeError\<close>
  instead of "destination exists".
\<close>

theorem rename_stale_handle_raises:
  "let fs1 = snd (makedir (MemoryFS_init 0) [''d''] False False);
       fs2 = snd (open_file fs1 [''d'', ''f''] ''w'');
       fs3 = snd (rename fs2 [''d''] [''e'']);
       fs4 = snd (makedir fs3 [''x''] False False)
   in exists_path fs4 [''e'', ''f''] \<and> exists_path fs4 [''x'']
      \<and> fst (rename fs4 [''e'', ''f''] [''x'']) = Inl AttributeError"
  by code_simp

text \<open>
  Away from that defect the source behaves as the spec says.  Let \<open>src\<close> and \<open>dst\<close>
  resolve, and let the handles registered with the node of \<open>src\<close> be distinct, have an
  open buffer and record \<open>src\<close> as their path.  Then \<open>rename\<close> fails with "destination
  exists", and the failure is not free of side effects: every such handle now records
  \<open>dst\<close> as its path; the loop has committed the buffer of each handle in turn into the
  node of \<open>src\<close> (the state of the loop after the handle at position \<open>k\<close> holds that
  buffer as the node's data), and in the state left behind the node of \<open>src\<close> holds the
  buffer of the last handle.
\<close>

lemma rename_onto_existing:
  assumes src: "get_dir_entry fs src = Some e"
    and dst: "get_dir_entry fs dst \<noteq> None"
    and handles: "\<forall>h\<in>set (open_files (attrs e)).
                    \<exists>f. files fs h = Some f \<and> \<not> sio_closed (mem_file f) \<and> path f = src"
    and dist: "distinct (open_files (attrs e))"
  shows "\<exists>fs'. rename fs src dst = (Inl DestinationExistsError, fs')
          \<and> (\<forall>h\<in>set (open_files (attrs e)).
                \<exists>f. files fs h = Some f \<and> files fs' h = Some (f\<lparr>path := dst\<rparr>))
          \<and> (\<forall>k<length (open_files (attrs e)).
                \<exists>s. rename_loop fs dst (take (Suc k) (open_files (attrs e))) = (Inr (), s)
                  \<and> get_dir_entry s src =
                      Some (map_attrs (\<lambda>a. a\<lparr>data := Some (buf (mem_file
                              (the (files fs (open_files (attrs e) ! k)))))\<rparr>) e))
          \<and> (open_files (attrs e) \<noteq> [] \<longrightarrow>
               get_dir_entry fs' src =
                 Some (map_attrs (\<lambda>a. a\<lparr>data := Some (buf (mem_file
                         (the (files fs (last (open_files (attrs e)))))))\<rparr>) e))"
proof -
  let ?hs = "open_files (attrs e)"
  have r: "get_dir_entry fs src \<noteq> None" using src by simp
  have committed: "\<exists>s. rename_loop fs dst xs = (Inr (), s)
        \<and> (xs \<noteq> [] \<longrightarrow> get_dir_entry s src =
              Some (map_attrs (\<lambda>a. a\<lparr>data := Some (buf (mem_file (the (files fs (last xs)))))\<rparr>) e))
        \<and> get_dir_entry s dst \<noteq> None
        \<and> (\<forall>h\<in>set xs. \<exists>f. files fs h = Some f \<and> files s h = Some (f\<lparr>path := dst\<rparr>))"
    if xs: "set xs \<subseteq> set ?hs" "distinct xs" for xs
  proof -
    have hx: "\<forall>h\<in>set xs. \<exists>f. files fs h = Some f \<and> \<not> sio_closed (mem_file f) \<and> path f = src"
      using handles xs(1) by blast
    from rename_loop_uniform[OF r hx xs(2), of dst]
    obtain s where s: "rename_loop fs dst xs = (Inr (), s)"
      "root s = (if xs = [] then root fs
               else root (modify_entry fs src
                      (map_attrs (\<lambda>a. a\<lparr>data := Some (buf (mem_file (the (files fs (last xs)))))\<rparr>))))"
      "\<forall>h. files s h = (if h \<in> set xs then map_option (\<lambda>f. f\<lparr>path := dst\<rparr>) (files fs h)
                 else files fs h)"
      by blast
    have "xs \<noteq> [] \<Longrightarrow> get_dir_entry s src =
              Some (map_attrs (\<lambda>a. a\<lparr>data := Some (buf (mem_file (the (files fs (last xs)))))\<rparr>) e)"
      using s(2) src by (simp add: get_root_cong[of s] get_modify_same)
    moreover have "get_dir_entry s dst \<noteq> None"
      using s(2) dst by (cases "xs = []") (simp_all add: get_root_cong[of s] get_modify_attrs_None)
    moreover have "\<forall>h\<in>set xs. \<exists>f. files fs h = Some f \<and> files s h = Some (f\<lparr>path := dst\<rparr>)"
      using s(3) hx by auto
    ultimately show ?thesis using s(1) by blast
  qed
  from committed[of ?hs] dist
  obtain fs' where l: "rename_loop fs dst ?hs = (Inr (), fs')"
    "?hs \<noteq> [] \<longrightarrow> get_dir_entry fs' src =
              Some (map_attrs (\<lambda>a. a\<lparr>data := Some (buf (mem_file (the (files fs (last ?hs)))))\<rparr>) e)"
    "get_dir_entry fs' dst \<noteq> None"
    "\<forall>h\<in>set ?hs. \<exists>f. files fs h = Some f \<and> files fs' h = Some (f\<lparr>path := dst\<rparr>)"
    by auto
  have "rename fs src dst = (Inl DestinationExistsError, fs')"
    using src l(1,3) by (simp add: rename_def split: prod.splits)
  moreover have "\<exists>s. rename_loop fs dst (take (Suc k) ?hs) = (Inr (), s)
                  \<and> get_dir_entry s src =
                      Some (map_attrs (\<lambda>a. a\<lparr>data := Some (buf (mem_file
                              (the (files fs (?hs ! k)))))\<rparr>) e)"
    if "k < length ?hs" for k
  proof -
    from that have la: "last (take (Suc k) ?hs) = ?hs ! k" "take (Suc k) ?hs \<noteq> []"
      by (auto simp: take_Suc_conv_app_nth)
    from committed[of "take (Suc k) ?hs"] dist la show ?thesis
      by (auto dest: in_set_takeD)
  qed
  ultimately show ?thesis using l(2,4) by blast
qed

lemma rename_onto_existing_example:
  "map_option (\<lambda>e. open_files (attrs e)) (get_dir_entry example_open [''f'']) = Some [0]
   \<and> get_dir_entry example_open [''g''] \<noteq> None
   \<and> map_option (\<lambda>f. (sio_closed (mem_file f), path f, buf (mem_file f))) (files example_open 0)
       = Some (False, [''f''], ''hi'')
   \<and> fst (rename example_open [''f''] [''g'']) = Inl DestinationExistsError
   \<and> map_option path (files (snd (rename example_open [''f''] [''g''])) 0) = Some [''g'']
   \<and> map_option (\<lambda>e. data (attrs e)) (get_dir_entry (snd (rename example_open [''f''] [''g''])) [''f''])
       = Some (Some ''hi'')"
proof -
  have a: "map_option (\<lambda>e. open_files (attrs e)) (get_dir_entry example_open [''f'']) = Some [0]"
    by code_simp
  have b: "get_dir_entry example_open [''g''] \<noteq> None" by code_simp
  have c: "map_option (\<lambda>f. (sio_closed (mem_file f), path f, buf (mem_file f))) (files example_open 0)
       = Some (False, [''f''], ''hi'')"
    by code_simp
  from a obtain e where e: "get_dir_entry example_open [''f''] = Some e" "open_files (attrs e) = [0]"
    by auto
  from c obtain f where f: "files example_open 0 = Some f" "\<not> sio_closed (mem_file f)"
      "path f = [''f'']" "buf (mem_file f) = ''hi''"
    by auto
  have h: "\<forall>h\<in>set (open_files (attrs e)).
             \<exists>f. files example_open h = Some f \<and> \<not> sio_closed (mem_file f) \<and> path f = [''f'']"
    using e(2) f by simp
  have d: "distinct (open_files (attrs e))" using e(2) by simp
  from rename_onto_existing[OF e(1) b h d]
  obtain fs' where r: "rename example_open [''f''] [''g''] = (Inl DestinationExistsError, fs')"
    "\<forall>h\<in>set (open_files (attrs e)).
        \<exists>f. files example_open h = Some f \<and> files fs' h = Some (f\<lparr>path := [''g'']\<rparr>)"
    "open_files (attrs e) \<noteq> [] \<longrightarrow>
       get_dir_entry fs' [''f''] =
         Some (map_attrs (\<lambda>a. a\<lparr>data := Some (buf (mem_file
                 (the (files example_open (last (open_files (attrs e)))))))\<rparr>) e)"
    by blast
  from r e(2) f have "map_option path (files fs' 0) = Some [''g'']" by auto
  moreover from r(3) e(2) f have "map_option (\<lambda>e. data (attrs e)) (get_dir_entry fs' [''f''])
       = Some (Some ''hi'')"
    by (simp add: map_attrs_def)
  ultimately show ?thesis using a b c r(1) by simp
qed

subsection \<open>A successful rename\<close>

lemma rename_success:
  assumes "rename fs src dst = (Inr (), fs')"
  shows "\<exists>e fs1 sde dde c moved.
           get_dir_entry fs src = Some e
         \<and> rename_loop fs dst (open_files (attrs e)) = (Inr (), fs1)
         \<and> get_dir_entry fs1 dst = None
         \<and> get_dir_entry fs1 (fst (pathsplit src)) = Some sde
         \<and> get_dir_entry fs1 (fst (pathsplit dst)) = Some dde
         \<and> contents sde = Some c \<and> map_of c (snd (pathsplit src)) = Some moved
         \<and> contents dde \<noteq> None
         \<and> fs' = rename_move fs1 (fst (pathsplit src)) (snd (pathsplit src))
                    (fst (pathsplit dst)) (snd (pathsplit dst)) moved (xattrs (attrs sde))"
  using assms
  by (auto simp: rename_def split: prod.splits option.splits sum.splits if_splits)

lemma erased_stat_attrs:
  assumes "map_option (apfst (\<lambda>a. a\<lparr>data := None\<rparr>)) (stat fs1 q) =
           map_option (apfst (\<lambda>a. a\<lparr>data := None\<rparr>)) (stat fs q)"
    and "get_dir_entry fs1 q = Some e1" "get_dir_entry fs q = Some e"
  shows "(attrs e1)\<lparr>data := None\<rparr> = (attrs e)\<lparr>data := None\<rparr>"
  using assms by (simp add: stat_def view_def)

lemma xattrs_of_erased:
  "a1\<lparr>data := None\<rparr> = a\<lparr>data := None\<rparr> \<Longrightarrow> xattrs a1 = xattrs (a :: entry_attrs)"
  by (metis (no_types) entry_attrs.select_convs(10) entry_attrs.surjective entry_attrs.update_convs(5))

lemma get_prefix_resolves:
  "get_dir_entry fs (p @ q) \<noteq> None \<Longrightarrow> get_dir_entry fs p \<noteq> None"
  by (auto simp: get_append split: option.splits)

lemma get_modify_del_other:
  assumes "\<not> prefix (d @ [n]) q" "\<not> prefix q d"
  shows "get_dir_entry (modify_entry fs d (contents_del n)) q = get_dir_entry fs q"
proof (cases "prefix d q")
  case True
  then obtain r where q: "q = d @ r" by (auto simp: prefix_def)
  with assms obtain c cs where r: "r = c # cs" "c \<noteq> n" by (cases r) auto
  show ?thesis unfolding q r
    by (simp add: get_modify_below get_append[of fs] walk_contents_del_Cons r(2)
        del: walk.simps split: option.splits)
next
  case False
  show ?thesis
    using walk_modify_other[OF False, of "contents_del n" "root fs"] assms(2)
    by (simp add: get_dir_entry_def modify_entry_def iteratepath_def option.map_ident)
qed

lemma pathsplit_nonempty: "p \<noteq> [] \<Longrightarrow> fst (pathsplit p) @ [snd (pathsplit p)] = p"
  by (simp add: pathsplit_def)

text \<open>
  C8.  For every successful \<open>rename\<close>, with \<open>sd\<close> the directory of \<open>src\<close> and \<open>dd\<close>
  the directory of \<open>dst\<close> before the call: the call passes through a state \<open>mid\<close> in
  which the directory of \<open>dst\<close> carries the union of both attribute mappings, the
  value of \<open>sd\<close> winning on a common key, and only the deletion of the old entry
  separates \<open>mid\<close> from the final state; and whenever the directory of \<open>dst\<close> still
  resolves in the final state, it carries that union there.
\<close>

theorem rename_merges_xattrs:
  assumes ok: "rename fs src dst = (Inr (), fs')"
    and sd: "get_dir_entry fs (fst (pathsplit src)) = Some sd"
    and dd: "get_dir_entry fs (fst (pathsplit dst)) = Some dd"
  shows "(\<exists>mid dm. get_dir_entry mid (fst (pathsplit dst)) = Some dm
            \<and> map_of (xattrs (attrs dm)) = map_of (xattrs (attrs dd)) ++ map_of (xattrs (attrs sd))
            \<and> fs' = modify_entry mid (fst (pathsplit src)) (contents_del (snd (pathsplit src))))
       \<and> (\<forall>dd'. get_dir_entry fs' (fst (pathsplit dst)) = Some dd' \<longrightarrow>
             map_of (xattrs (attrs dd')) = map_of (xattrs (attrs dd)) ++ map_of (xattrs (attrs sd)))"
proof -
  let ?sdir = "fst (pathsplit src)" and ?sn = "snd (pathsplit src)"
  let ?ddir = "fst (pathsplit dst)" and ?dn = "snd (pathsplit dst)"
  from rename_success[OF ok]
  obtain e fs1 sde dde c moved where r:
    "rename_loop fs dst (open_files (attrs e)) = (Inr (), fs1)"
    "get_dir_entry fs1 ?sdir = Some sde" "get_dir_entry fs1 ?ddir = Some dde"
    "fs' = rename_move fs1 ?sdir ?sn ?ddir ?dn moved (xattrs (attrs sde))"
    by blast
  have xs: "xattrs (attrs sde) = xattrs (attrs sd)"
    using erased_stat_attrs[OF rename_loop_general[OF r(1)] r(2) sd] by (rule xattrs_of_erased)
  have xd: "xattrs (attrs dde) = xattrs (attrs dd)"
    using erased_stat_attrs[OF rename_loop_general[OF r(1)] r(3) dd] by (rule xattrs_of_erased)
  let ?F = "\<lambda>d. map_attrs (\<lambda>a. a\<lparr>xattrs := AList.merge (xattrs a) (xattrs (attrs sde))\<rparr>)
                  (contents_set ?dn (map_attrs (\<lambda>a. a\<lparr>name := ?dn\<rparr>) moved) d)"
  let ?mid = "modify_entry fs1 ?ddir ?F"
  have fs': "fs' = modify_entry ?mid ?sdir (contents_del ?sn)"
    using r(4) by (simp add: rename_move_def)
  have gm: "get_dir_entry ?mid ?ddir = Some (?F dde)"
    using r(3) by (simp add: get_modify_same)
  have xm: "map_of (xattrs (attrs (?F dde))) = map_of (xattrs (attrs dd)) ++ map_of (xattrs (attrs sd))"
    by (simp add: map_attrs_def contents_set_def merge_conv' xs xd)
  have first: "\<exists>mid dm. get_dir_entry mid ?ddir = Some dm
            \<and> map_of (xattrs (attrs dm)) = map_of (xattrs (attrs dd)) ++ map_of (xattrs (attrs sd))
            \<and> fs' = modify_entry mid ?sdir (contents_del ?sn)"
    using gm xm fs' by blast
  have second: "map_of (xattrs (attrs dd')) = map_of (xattrs (attrs dd)) ++ map_of (xattrs (attrs sd))"
    if d': "get_dir_entry fs' ?ddir = Some dd'" for dd'
  proof -
    have "stat fs' ?ddir = (if prefix (?sdir @ [?sn]) ?ddir then None else stat ?mid ?ddir)"
      unfolding fs' by (rule stat_modify_del)
    moreover have "stat fs' ?ddir \<noteq> None" using d' by (simp add: stat_def)
    ultimately have "stat fs' ?ddir = stat ?mid ?ddir" by (auto split: if_splits)
    then have "attrs dd' = attrs (?F dde)"
      using d' gm by (simp add: stat_def view_def)
    then show ?thesis using xm by simp
  qed
  show ?thesis using first second by blast
qed

theorem rename_merges_xattrs_witness:
  "fst (rename example_xattrs [''a'', ''f''] [''b'', ''g'']) = Inr ()
   \<and> map_option (\<lambda>e. xattrs (attrs e)) (get_dir_entry example_xattrs [''a''])
       = Some [(''k'', ''v1'')]
   \<and> map_option (\<lambda>e. xattrs (attrs e)) (get_dir_entry example_xattrs [''b''])
       = Some [(''k'', ''v2''), (''j'', ''w'')]
   \<and> map_option (\<lambda>e. (map_of (xattrs (attrs e)) ''k'', map_of (xattrs (attrs e)) ''j''))
        (get_dir_entry (snd (rename example_xattrs [''a'', ''f''] [''b'', ''g''])) [''b''])
       = Some (Some ''v1'', Some ''w'')"
proof -
  let ?r = "rename example_xattrs [''a'', ''f''] [''b'', ''g'']"
  have f: "fst ?r = Inr ()" by code_simp
  then have ok: "?r = (Inr (), snd ?r)" by (simp add: prod_eq_iff)
  have a: "map_option (\<lambda>e. xattrs (attrs e)) (get_dir_entry example_xattrs [''a''])
       = Some [(''k'', ''v1'')]" by code_simp
  have b: "map_option (\<lambda>e. xattrs (attrs e)) (get_dir_entry example_xattrs [''b''])
       = Some [(''k'', ''v2''), (''j'', ''w'')]" by code_simp
  have c: "get_dir_entry (snd ?r) [''b''] \<noteq> None" by code_simp
  from a obtain sd where sd: "get_dir_entry example_xattrs [''a''] = Some sd"
      "xattrs (attrs sd) = [(''k'', ''v1'')]" by auto
  from b obtain dd where dd: "get_dir_entry example_xattrs [''b''] = Some dd"
      "xattrs (attrs dd) = [(''k'', ''v2''), (''j'', ''w'')]" by auto
  from c obtain dd' where dd': "get_dir_entry (snd ?r) [''b''] = Some dd'" by auto
  have ps: "fst (pathsplit [''a'', ''f'']) = [''a'']" "fst (pathsplit [''b'', ''g'']) = [''b'']"
    by (simp_all add: pathsplit_def)
  from rename_merges_xattrs[OF ok, of sd dd] sd(1) dd(1) dd'
  have "map_of (xattrs (attrs dd')) = map_of (xattrs (attrs dd)) ++ map_of (xattrs (attrs sd))"
    by (simp add: ps)
  then have "map_of (xattrs (attrs dd')) ''k'' = Some ''v1''"
      "map_of (xattrs (attrs dd')) ''j'' = Some ''w''"
    by (simp_all add: sd(2) dd(2))
  then show ?thesis using f a b dd' by simp
qed

text \<open>
  C7.  The spec: whenever \<open>src\<close> resolves, \<open>dst\<close> does not, and \<open>rename\<close> succeeds,
  \<open>src\<close> no longer resolves and \<open>dst\<close> resolves to the node that was at \<open>src\<close>.  The
  source has no guard against a destination below the source: \<open>rename a a/x/b\<close>
  succeeds, enters the node of \<open>a\<close> into the directory \<open>a/x\<close> of its own subtree and
  then deletes \<open>a\<close> from the root.  Afterwards neither \<open>a\<close> nor \<open>a/x/b\<close> resolves: the
  node and everything below it are lost.
\<close>

theorem rename_into_own_subtree_loses_node:
  "let fs1 = snd (makedir (MemoryFS_init 0) [''a'', ''x''] True False)
   in get_dir_entry fs1 [''a''] \<noteq> None
      \<and> get_dir_entry fs1 [''a'', ''x'', ''b''] = None
      \<and> fst (rename fs1 [''a''] [''a'', ''x'', ''b'']) = Inr ()
      \<and> get_dir_entry (snd (rename fs1 [''a''] [''a'', ''x'', ''b''])) [''a'', ''x'', ''b''] = None
      \<and> get_dir_entry (snd (rename fs1 [''a''] [''a'', ''x'', ''b''])) [''a''] = None"
  by code_simp

text \<open>
  Away from that defect the move is as the spec says, up to the data that the flush of
  the open handles commits.  Let \<open>src\<close> be another path than the root and resolve to \<open>e\<close>, let
  \<open>dst\<close> not lie at or below \<open>src\<close>, and let \<open>rename\<close> succeed.  Then \<open>src\<close> no longer
  resolves, and \<open>dst\<close> resolves to the node \<open>e1\<close> that \<open>src\<close> resolved to when the
  loop over the handles of \<open>e\<close> had run, with its name set to the leaf name of \<open>dst\<close>.
  \<open>e1\<close> has the attributes of \<open>e\<close> (identity, type, extended attributes, handles,
  lock count, times) except possibly the data, which the flushes commit; when no handle
  is registered with \<open>e\<close>, \<open>e1\<close> is \<open>e\<close>, subtree and data included.
\<close>

lemma rename_moves_node:
  assumes ok: "rename fs src dst = (Inr (), fs')"
    and src: "get_dir_entry fs src = Some e" "src \<noteq> []"
    and np: "\<not> prefix src dst"
  shows "get_dir_entry fs' src = None
       \<and> (\<exists>fs1 e1. rename_loop fs dst (open_files (attrs e)) = (Inr (), fs1)
             \<and> get_dir_entry fs1 src = Some e1
             \<and> (attrs e1)\<lparr>data := None\<rparr> = (attrs e)\<lparr>data := None\<rparr>
             \<and> (open_files (attrs e) = [] \<longrightarrow> e1 = e)
             \<and> get_dir_entry fs' dst =
                 Some (map_attrs (\<lambda>a. a\<lparr>name := snd (pathsplit dst)\<rparr>) e1))"
proof -
  let ?sdir = "fst (pathsplit src)" and ?sn = "snd (pathsplit src)"
  let ?ddir = "fst (pathsplit dst)" and ?dn = "snd (pathsplit dst)"
  have s: "?sdir @ [?sn] = src" using src(2) by (rule pathsplit_nonempty)
  from rename_success[OF ok] src(1)
  obtain fs1 sde dde c moved where r:
    "rename_loop fs dst (open_files (attrs e)) = (Inr (), fs1)"
    "get_dir_entry fs1 dst = None"
    "get_dir_entry fs1 ?sdir = Some sde" "get_dir_entry fs1 ?ddir = Some dde"
    "contents sde = Some c" "map_of c ?sn = Some moved" "contents dde \<noteq> None"
    "fs' = rename_move fs1 ?sdir ?sn ?ddir ?dn moved (xattrs (attrs sde))"
    by auto
  have "dst \<noteq> []" using r(2) by (auto simp: get_dir_entry_def iteratepath_def)
  then have d: "?ddir @ [?dn] = dst" by (rule pathsplit_nonempty)
  have m: "get_dir_entry fs1 src = Some moved"
    using r(3,5,6) get_snoc[of fs1 ?sdir ?sn] by (simp add: s)
  have er: "(attrs moved)\<lparr>data := None\<rparr> = (attrs e)\<lparr>data := None\<rparr>"
    using erased_stat_attrs[OF rename_loop_general[OF r(1)] m src(1)] .
  have same: "moved = e" if "open_files (attrs e) = []"
    using r(1) m src(1) that by simp
  let ?F = "\<lambda>d. map_attrs (\<lambda>a. a\<lparr>xattrs := AList.merge (xattrs a) (xattrs (attrs sde))\<rparr>)
                  (contents_set ?dn (map_attrs (\<lambda>a. a\<lparr>name := ?dn\<rparr>) moved) d)"
  let ?mid = "modify_entry fs1 ?ddir ?F"
  have fs': "fs' = modify_entry ?mid ?sdir (contents_del ?sn)"
    using r(8) by (simp add: rename_move_def)
  have gone: "get_dir_entry fs' src = None"
    using stat_modify_del[of ?mid ?sdir ?sn src] unfolding fs' by (simp add: s stat_None_iff)
  obtain cd where cd: "contents dde = Some cd" using r(7) by auto
  have "get_dir_entry ?mid (?ddir @ [?dn]) = walk (?F dde) [?dn]"
    using r(4) by (simp add: get_modify_below del: walk.simps)
  also have "\<dots> = Some (map_attrs (\<lambda>a. a\<lparr>name := ?dn\<rparr>) moved)"
    using cd by (simp add: map_attrs_def contents_set_def update_conv')
  finally have gm: "get_dir_entry ?mid dst = Some (map_attrs (\<lambda>a. a\<lparr>name := ?dn\<rparr>) moved)"
    by (simp add: d)
  have np1: "\<not> prefix (?sdir @ [?sn]) dst" using np by (simp add: s)
  have np2: "\<not> prefix dst ?sdir"
  proof
    assume "prefix dst ?sdir"
    then obtain t where "?sdir = dst @ t" by (auto simp: prefix_def)
    with r(3) have "get_dir_entry fs1 (dst @ t) \<noteq> None" by simp
    from get_prefix_resolves[OF this] r(2) show False by simp
  qed
  have "get_dir_entry fs' dst = get_dir_entry ?mid dst"
    unfolding fs' using np1 np2 by (rule get_modify_del_other)
  with gm have there: "get_dir_entry fs' dst = Some (map_attrs (\<lambda>a. a\<lparr>name := ?dn\<rparr>) moved)"
    by simp
  show ?thesis using gone r(1) m er same there by blast
qed

lemma rename_moves_node_example:
  "fst (rename example_xattrs [''a'', ''f''] [''b'', ''g'']) = Inr ()
   \<and> map_option (\<lambda>e. (ident (attrs e), name (attrs e), data (attrs e), xattrs (attrs e),
                       open_files (attrs e)))
        (get_dir_entry example_xattrs [''a'', ''f''])
       = Some (3, ''f'', Some ''data'', [(''tag'', ''T'')], [])
   \<and> get_dir_entry (snd (rename example_xattrs [''a'', ''f''] [''b'', ''g''])) [''a'', ''f''] = None
   \<and> map_option (\<lambda>e. (ident (attrs e), name (attrs e), data (attrs e), xattrs (attrs e)))
        (get_dir_entry (snd (rename example_xattrs [''a'', ''f''] [''b'', ''g''])) [''b'', ''g''])
       = Some (3, ''g'', Some ''data'', [(''tag'', ''T'')])"
proof -
  let ?r = "rename example_xattrs [''a'', ''f''] [''b'', ''g'']"
  have f: "fst ?r = Inr ()" by code_simp
  then have ok: "?r = (Inr (), snd ?r)" by (simp add: prod_eq_iff)
  have a: "map_option (\<lambda>e. (ident (attrs e), name (attrs e), data (attrs e), xattrs (attrs e),
                       open_files (attrs e)))
        (get_dir_entry example_xattrs [''a'', ''f''])
       = Some (3, ''f'', Some ''data'', [(''tag'', ''T'')], [])" by code_simp
  then obtain e where e: "get_dir_entry example_xattrs [''a'', ''f''] = Some e"
      "ident (attrs e) = 3" "data (attrs e) = Some ''data''"
      "xattrs (attrs e) = [(''tag'', ''T'')]" "open_files (attrs e) = []"
    by auto
  have np: "\<not> prefix [''a'', ''f''] [''b'', ''g'']" by simp
  from rename_moves_node[OF ok e(1) _ np] e(5)
  have "get_dir_entry (snd ?r) [''a'', ''f''] = None"
    "get_dir_entry (snd ?r) [''b'', ''g''] =
       Some (map_attrs (\<lambda>a. a\<lparr>name := snd (pathsplit [''b'', ''g''])\<rparr>) e)"
    by auto
  then show ?thesis using f a e by (simp add: map_attrs_def pathsplit_def)
qed

subsection \<open>remove of a file that is held open\<close>

lemma fold_remove1_self: "fold remove1 xs xs = []"
  by (induction xs) simp_all

lemma orphan_loop_append:
  "orphan_loop fs (xs @ ys) =
     (case orphan_loop fs xs of
        (Inl e, s) \<Rightarrow> (Inl e, s)
      | (Inr u, s) \<Rightarrow> orphan_loop s ys)"
  by (induction xs arbitrary: fs) (auto split: prod.splits sum.splits)

lemma orphan_loop_uniform:
  assumes "stat fs p = Some (a, b)"
    and "set hs \<subseteq> set (open_files a)" "distinct hs" "locks a \<ge> int (length hs)"
    and "\<forall>h\<in>set hs. \<exists>f. files fs h = Some f \<and> \<not> closed f \<and> \<not> sio_closed (mem_file f)
                          \<and> path f = p"
  shows "\<exists>fs'. orphan_loop fs hs = (Inr (), fs')
          \<and> (\<forall>q. stat fs' q =
                (if q = p \<and> hs \<noteq> []
                 then Some (a\<lparr>data := Some (buf (mem_file (the (files fs (last hs))))),
                               open_files := fold remove1 hs (open_files a),
                               locks := locks a - int (length hs)\<rparr>, b)
                 else stat fs q))
          \<and> (\<forall>h. files fs' h =
                (if h \<in> set hs
                 then map_option (\<lambda>f. f\<lparr>mem_file := sio_close (mem_file f), closed := True\<rparr>)
                        (files fs h)
                 else files fs h))"
  using assms
proof (induction hs arbitrary: fs a)
  case Nil
  then show ?case by simp
next
  case (Cons h rest)
  from Cons.prems(5) obtain f where f: "files fs h = Some f" "\<not> closed f"
      "\<not> sio_closed (mem_file f)" "path f = p" by auto
  have sp: "stat fs (path f) = Some (a, b)" using Cons.prems(1) f(4) by simp
  have hin: "h \<in> set (open_files a)" using Cons.prems(2) by simp
  have l1: "locks a \<ge> 1" using Cons.prems(4) by simp
  from close_spec[OF f(1,2,3) sp hin l1]
  obtain s1 where s1: "MemoryFile_close fs h = (Inr (), s1)"
    "\<forall>q. stat s1 q = (if q = path f
                   then Some (a\<lparr>data := Some (buf (mem_file f)),
                                 open_files := remove1 h (open_files a),
                                 locks := locks a - 1\<rparr>, b)
                   else stat fs q)"
    "files s1 = (files fs)(h \<mapsto> f\<lparr>mem_file := sio_close (mem_file f), closed := True\<rparr>)"
    by blast
  let ?a1 = "a\<lparr>data := Some (buf (mem_file f)), open_files := remove1 h (open_files a),
               locks := locks a - 1\<rparr>"
  have p1: "stat s1 p = Some (?a1, b)" using s1(2) f(4) by simp
  have sub1: "set rest \<subseteq> set (open_files ?a1)"
  proof
    fix x assume x: "x \<in> set rest"
    then have "x \<noteq> h" "x \<in> set (open_files a)" using Cons.prems(2,3) by auto
    then show "x \<in> set (open_files ?a1)" by (simp add: in_set_remove1)
  qed
  have d1: "distinct rest" using Cons.prems(3) by simp
  have k1: "locks ?a1 \<ge> int (length rest)" using Cons.prems(4) by simp
  have h1: "\<forall>h'\<in>set rest. \<exists>f'. files s1 h' = Some f' \<and> \<not> closed f' \<and> \<not> sio_closed (mem_file f')
                          \<and> path f' = p"
    using Cons.prems(3,5) s1(3) by auto
  from Cons.IH[OF p1 sub1 d1 k1 h1]
  obtain fs' where ih: "orphan_loop s1 rest = (Inr (), fs')"
    "\<forall>q. stat fs' q =
                (if q = p \<and> rest \<noteq> []
                 then Some (?a1\<lparr>data := Some (buf (mem_file (the (files s1 (last rest))))),
                               open_files := fold remove1 rest (open_files ?a1),
                               locks := locks ?a1 - int (length rest)\<rparr>, b)
                 else stat s1 q)"
    "\<forall>h'. files fs' h' =
                (if h' \<in> set rest
                 then map_option (\<lambda>f. f\<lparr>mem_file := sio_close (mem_file f), closed := True\<rparr>)
                        (files s1 h')
                 else files s1 h')"
    by blast
  have last_in: "rest \<noteq> [] \<Longrightarrow> files s1 (last rest) = files fs (last rest)"
    using Cons.prems(3) s1(3) by (auto dest: last_in_set)
  have st: "stat fs' q =
                (if q = p \<and> h # rest \<noteq> []
                 then Some (a\<lparr>data := Some (buf (mem_file (the (files fs (last (h # rest)))))),
                               open_files := fold remove1 (h # rest) (open_files a),
                               locks := locks a - int (length (h # rest))\<rparr>, b)
                 else stat fs q)" for q
  proof (cases "rest = []")
    case True
    then show ?thesis using ih(2) s1(2) f by simp
  next
    case False
    then show ?thesis using ih(2) s1(2) f(4) last_in by simp
  qed
  have fl: "files fs' h' =
                (if h' \<in> set (h # rest)
                 then map_option (\<lambda>f. f\<lparr>mem_file := sio_close (mem_file f), closed := True\<rparr>)
                        (files fs h')
                 else files fs h')" for h'
    using ih(3) s1(3) f(1) Cons.prems(3) by auto
  have "orphan_loop fs (h # rest) = (Inr (), fs')" using s1(1) ih(1) by simp
  then show ?case using st fl by blast
qed

text \<open>
  C2.  The spec: for every File node with a positive lock count, \<open>remove\<close> succeeds
  rather than failing; it force-closes the handles registered with the node, each close
  committing into the node, and then deletes the entry.  The source closes a handle
  through the handle's recorded path, not through the node being removed.  After a
  \<open>rename\<close> of \<open>f\<close> onto the existing \<open>g\<close> has failed, the handle of \<open>f\<close> records \<open>g\<close>:
  \<open>remove f\<close> writes the buffer into the data of \<open>g\<close>, does not find the handle among
  the handles of \<open>g\<close> and raises \<^verbatim>\<open>ValueError\<close>; \<open>f\<close> stays, and its handle stays open.
\<close>

theorem remove_after_failed_rename_raises:
  "let fs1 = snd (rename example_open [''f''] [''g''])
   in map_option (\<lambda>e. (etype (attrs e), locks (attrs e), open_files (attrs e)))
        (get_dir_entry fs1 [''f'']) = Some (File, 1, [0])
      \<and> map_option (\<lambda>e. data (attrs e)) (get_dir_entry fs1 [''g'']) = Some (Some [])
      \<and> fst (remove fs1 [''f'']) = Inl ValueError
      \<and> get_dir_entry (snd (remove fs1 [''f''])) [''f''] \<noteq> None
      \<and> map_option (\<lambda>e. data (attrs e)) (get_dir_entry (snd (remove fs1 [''f''])) [''g''])
          = Some (Some ''hi'')
      \<and> map_option closed (files (snd (remove fs1 [''f''])) 0) = Some False"
  by code_simp

text \<open>
  Away from that defect the source behaves as the spec says.  Let \<open>p\<close>, not the root, resolve to a File node with a positive lock
  count that equals the number of its registered handles, and let these handles be
  distinct, open, and record \<open>p\<close> as their path.  Then \<open>remove\<close> succeeds rather than
  failing.  The force-close succeeds and commits the buffer of each handle in turn into
  the node's data (the loop state after the handle at position \<open>k\<close> holds that buffer);
  it leaves the node (state \<open>mid\<close>) with the last buffer as data, no registered handle
  and lock count 0.  Then the entry is deleted from its parent: \<open>p\<close> no longer
  resolves, and every previously registered handle is closed.
\<close>

lemma remove_locked_force_closes:
  assumes node: "get_dir_entry fs p = Some e" "isfile_entry e" "locks (attrs e) > 0" "p \<noteq> []"
    and count: "locks (attrs e) = int (length (open_files (attrs e)))"
    and dist: "distinct (open_files (attrs e))"
    and handles: "\<forall>h\<in>set (open_files (attrs e)).
                    \<exists>f. files fs h = Some f \<and> \<not> closed f \<and> \<not> sio_closed (mem_file f)
                      \<and> path f = p"
  shows "\<exists>mid fs'. orphan_files fs e = (Inr (), mid)
          \<and> (\<forall>k<length (open_files (attrs e)).
                \<exists>s. orphan_loop fs (take (Suc k) (open_files (attrs e))) = (Inr (), s)
                  \<and> map_option (\<lambda>x. data (fst x)) (stat s p) =
                      Some (Some (buf (mem_file (the (files fs (open_files (attrs e) ! k)))))))
          \<and> stat mid p =
              Some ((attrs e)\<lparr>data := Some (buf (mem_file
                                  (the (files fs (last (open_files (attrs e))))))),
                              open_files := [], locks := 0\<rparr>, contents e = None)
          \<and> remove fs p = (Inr (), fs')
          \<and> fs' = modify_entry mid (fst (pathsplit p)) (contents_del (snd (pathsplit p)))
          \<and> get_dir_entry fs' p = None
          \<and> (\<forall>h\<in>set (open_files (attrs e)).
                \<exists>f. files fs h = Some f
                  \<and> files fs' h = Some (f\<lparr>mem_file := sio_close (mem_file f), closed := True\<rparr>))"
proof -
  let ?hs = "open_files (attrs e)"
  let ?d = "fst (pathsplit p)" and ?n = "snd (pathsplit p)"
  have sp: "stat fs p = Some (attrs e, contents e = None)"
    using node(1) by (simp add: stat_def view_def)
  have ne: "?hs \<noteq> []" using node(3) count by auto
  have part: "\<exists>s. orphan_loop fs xs = (Inr (), s)
        \<and> (\<forall>q. stat s q =
                (if q = p \<and> xs \<noteq> []
                 then Some ((attrs e)\<lparr>data := Some (buf (mem_file (the (files fs (last xs))))),
                               open_files := fold remove1 xs ?hs,
                               locks := locks (attrs e) - int (length xs)\<rparr>, contents e = None)
                 else stat fs q))
        \<and> (\<forall>h. files s h =
                (if h \<in> set xs
                 then map_option (\<lambda>f. f\<lparr>mem_file := sio_close (mem_file f), closed := True\<rparr>)
                        (files fs h)
                 else files fs h))"
    if xs: "set xs \<subseteq> set ?hs" "distinct xs" "length xs \<le> length ?hs" for xs
  proof -
    have k: "locks (attrs e) \<ge> int (length xs)" using count xs(3) by simp
    have hx: "\<forall>h\<in>set xs. \<exists>f. files fs h = Some f \<and> \<not> closed f \<and> \<not> sio_closed (mem_file f)
                          \<and> path f = p"
      using handles xs(1) by blast
    from orphan_loop_uniform[OF sp xs(1,2) k hx] show ?thesis .
  qed
  from part[of ?hs] dist
  obtain mid where mid: "orphan_loop fs ?hs = (Inr (), mid)"
    "\<forall>q. stat mid q =
                (if q = p \<and> ?hs \<noteq> []
                 then Some ((attrs e)\<lparr>data := Some (buf (mem_file (the (files fs (last ?hs))))),
                               open_files := fold remove1 ?hs ?hs,
                               locks := locks (attrs e) - int (length ?hs)\<rparr>, contents e = None)
                 else stat fs q)"
    "\<forall>h. files mid h =
                (if h \<in> set ?hs
                 then map_option (\<lambda>f. f\<lparr>mem_file := sio_close (mem_file f), closed := True\<rparr>)
                        (files fs h)
                 else files fs h)"
    by auto
  have om: "orphan_files fs e = (Inr (), mid)" using mid(1) by (simp add: orphan_files_def)
  have sm: "stat mid p = Some ((attrs e)\<lparr>data := Some (buf (mem_file (the (files fs (last ?hs))))),
                              open_files := [], locks := 0\<rparr>, contents e = None)"
    using mid(2) ne count by (simp add: fold_remove1_self)
  have s: "?d @ [?n] = p" using node(4) by (rule pathsplit_nonempty)
  have "get_dir_entry mid (?d @ [?n]) \<noteq> None" using sm by (simp add: s stat_None_iff[symmetric])
  from del_entry_spec[OF this]
  have del: "del_entry mid ?d ?n = (Inr (), modify_entry mid ?d (contents_del ?n))" .
  let ?fs' = "modify_entry mid ?d (contents_del ?n)"
  have rm: "remove fs p = (Inr (), ?fs')"
    using node(1,2,3) om del
    by (simp add: remove_def islocked_def isdir_entry_def isfile_entry_def case_prod_beta)
  have gone: "get_dir_entry ?fs' p = None"
    using stat_modify_del[of mid ?d ?n p] by (simp add: s stat_None_iff)
  have cl: "\<forall>h\<in>set ?hs. \<exists>f. files fs h = Some f
              \<and> files ?fs' h = Some (f\<lparr>mem_file := sio_close (mem_file f), closed := True\<rparr>)"
    using mid(3) handles by auto
  have steps: "\<exists>s. orphan_loop fs (take (Suc k) ?hs) = (Inr (), s)
                  \<and> map_option (\<lambda>x. data (fst x)) (stat s p) =
                      Some (Some (buf (mem_file (the (files fs (?hs ! k))))))"
    if "k < length ?hs" for k
  proof -
    from that have la: "last (take (Suc k) ?hs) = ?hs ! k" "take (Suc k) ?hs \<noteq> []"
      by (auto simp: take_Suc_conv_app_nth)
    have "set (take (Suc k) ?hs) \<subseteq> set ?hs" by (auto dest: in_set_takeD)
    from part[OF this] dist la show ?thesis by auto
  qed
  show ?thesis using om steps sm rm gone cl by blast
qed

lemma remove_locked_force_closes_example:
  "map_option (\<lambda>e. (etype (attrs e), locks (attrs e), open_files (attrs e)))
     (get_dir_entry example_open [''f'']) = Some (File, 1, [0])
   \<and> map_option (\<lambda>f. (closed f, sio_closed (mem_file f), path f, buf (mem_file f)))
       (files example_open 0) = Some (False, False, [''f''], ''hi'')
   \<and> fst (remove example_open [''f'']) = Inr ()
   \<and> get_dir_entry (snd (remove example_open [''f''])) [''f''] = None
   \<and> map_option closed (files (snd (remove example_open [''f''])) 0) = Some True
   \<and> (\<exists>mid. snd (remove example_open [''f'']) = modify_entry mid [] (contents_del ''f'')
          \<and> map_option (\<lambda>x. (data (fst x), locks (fst x), open_files (fst x))) (stat mid [''f''])
              = Some (Some ''hi'', 0, []))"
proof -
  have a: "map_option (\<lambda>e. (etype (attrs e), locks (attrs e), open_files (attrs e)))
     (get_dir_entry example_open [''f'']) = Some (File, 1, [0])" by code_simp
  have c: "map_option (\<lambda>f. (closed f, sio_closed (mem_file f), path f, buf (mem_file f)))
       (files example_open 0) = Some (False, False, [''f''], ''hi'')" by code_simp
  from a obtain e where e: "get_dir_entry example_open [''f''] = Some e"
      "etype (attrs e) = File" "locks (attrs e) = 1" "open_files (attrs e) = [0]"
    by auto
  from c obtain f where f: "files example_open 0 = Some f" "\<not> closed f"
      "\<not> sio_closed (mem_file f)" "path f = [''f'']" "buf (mem_file f) = ''hi''"
    by auto
  have h: "\<forall>h\<in>set (open_files (attrs e)).
             \<exists>f. files example_open h = Some f \<and> \<not> closed f \<and> \<not> sio_closed (mem_file f)
               \<and> path f = [''f'']"
    using e(4) f by simp
  from remove_locked_force_closes[OF e(1) _ _ _ _ _ h] e(2,3,4)
  obtain mid fs' where r:
    "stat mid [''f''] =
       Some ((attrs e)\<lparr>data := Some (buf (mem_file (the (files example_open (last (open_files (attrs e))))))),
                       open_files := [], locks := 0\<rparr>, contents e = None)"
    "remove example_open [''f''] = (Inr (), fs')"
    "fs' = modify_entry mid (fst (pathsplit [''f''])) (contents_del (snd (pathsplit [''f''])))"
    "get_dir_entry fs' [''f''] = None"
    "\<forall>h\<in>set (open_files (attrs e)).
        \<exists>f. files example_open h = Some f
          \<and> files fs' h = Some (f\<lparr>mem_file := sio_close (mem_file f), closed := True\<rparr>)"
    by (auto simp: isfile_entry_def)
  from r(5) e(4) f have "map_option closed (files fs' 0) = Some True" by auto
  moreover from r(1) e(4) f
  have "map_option (\<lambda>x. (data (fst x), locks (fst x), open_files (fst x))) (stat mid [''f''])
              = Some (Some ''hi'', 0, [])" by simp
  moreover from r(3) have "fs' = modify_entry mid [] (contents_del ''f'')"
    by (simp add: pathsplit_def)
  ultimately show ?thesis using a c r(2,4) by auto
qed

subsection \<open>Lock count and registered handles\<close>

text \<open>
  C3.  The spec: in every state reachable from a fresh filesystem, every File node
  reachable from the root has a lock count equal to the number of its registered
  handles.  \<^verbatim>\<open>open\<close> registers the handle with \<^verbatim>\<open>parent_dir_entry.contents[filename]\<close> but
  locks the entry that the whole path resolves to.  For the root path the two differ:
  the split gives the root and the empty name, a file with the empty name is created in
  the root and receives the handle, and the lock goes to the root.  On a fresh
  filesystem, after \<open>open\<close> of the root path in write mode, the children of the root
  are that one File node, with one registered handle and lock count 0, and the root has
  lock count 1.
\<close>

theorem open_root_path_breaks_lock_count:
  "let fs1 = snd (open_file (MemoryFS_init 0) [] ''w'')
   in fst (open_file (MemoryFS_init 0) [] ''w'') = Inr (Some 0)
      \<and> map_option (map (\<lambda>(k, e). (k, etype (attrs e), locks (attrs e), open_files (attrs e))))
           (contents (root fs1)) = Some [([], File, 0, [0])]
      \<and> locks (attrs (root fs1)) = 1
      \<and> open_files (attrs (root fs1)) = []"
  by code_simp

text \<open>
  Away from that defect the invariant holds.  Every step keeps it, a failing one
  included, as long as no \<open>open\<close> is given the root path.
\<close>

lemma locks_ok_root_cong: "root fs' = root fs \<Longrightarrow> locks_ok fs' = locks_ok fs"
  using stat_root_cong[of fs' fs] by (simp add: locks_ok_def)

lemma locks_ok_set_file [simp]: "locks_ok (set_file fs h f) = locks_ok fs"
  by (rule locks_ok_root_cong) simp

lemma locks_ok_next_file [simp]: "locks_ok (fs\<lparr>next_file := k\<rparr>) = locks_ok fs"
  by (rule locks_ok_root_cong) simp

lemma locks_ok_next_ident [simp]: "locks_ok (fs\<lparr>next_ident := k\<rparr>) = locks_ok fs"
  by (rule locks_ok_root_cong) simp

lemma locks_ok_attrs:
  assumes "locks_ok fs" "\<And>a. counted a \<Longrightarrow> counted (g a)"
  shows "locks_ok (modify_entry fs p (map_attrs g))"
  using assms unfolding locks_ok_def
  by (auto simp: stat_modify_attrs split: if_splits)

lemma locks_ok_del:
  "locks_ok fs \<Longrightarrow> locks_ok (modify_entry fs d (contents_del n))"
  unfolding locks_ok_def by (auto simp: stat_modify_del split: if_splits)

lemma locks_ok_set:
  assumes "locks_ok fs" "\<And>r e. walk x r = Some e \<Longrightarrow> counted (attrs e)"
  shows "locks_ok (modify_entry fs d (contents_set n x))"
  unfolding locks_ok_def
proof (intro allI impI)
  fix q a b
  assume s: "stat (modify_entry fs d (contents_set n x)) q = Some (a, b)"
  show "counted a"
  proof (cases "prefix (d @ [n]) q")
    case True
    then obtain cs where q: "q = d @ n # cs" by (auto simp: prefix_def)
    from s obtain e where e: "get_dir_entry (modify_entry fs d (contents_set n x)) (d @ n # cs) = Some e"
        "attrs e = a"
      unfolding q by (auto dest: stat_SomeD)
    from e(1) have "walk x cs = Some e"
      by (auto simp: get_modify_below contents_set_def update_conv' split: option.splits)
    from assms(2)[OF this] e(2) show ?thesis by simp
  next
    case False
    with s assms(1) show ?thesis by (auto simp: stat_modify_set_other locks_ok_def)
  qed
qed

lemma counted_make: "walk (make_dir_entry i t ty n) r = Some e \<Longrightarrow> counted (attrs e)"
  by (cases r) (auto simp: make_dir_entry_def counted_def split: if_splits)

lemma locks_ok_init: "locks_ok (MemoryFS_init t)"
  by (auto simp: locks_ok_def stat_def get_dir_entry_def iteratepath_def MemoryFS_init_def
      view_def dest: counted_make)


lemma counted_simps [simp]:
  "counted (a\<lparr>data := v\<rparr>) = counted a"
  "counted (a\<lparr>modified_time := t\<rparr>) = counted a"
  "counted (a\<lparr>accessed_time := t\<rparr>) = counted a"
  "counted (a\<lparr>xattrs := x\<rparr>) = counted a"
  "counted (a\<lparr>name := n\<rparr>) = counted a"
  by (simp_all add: counted_def)

lemma locks_ok_on_modify: "locks_ok fs \<Longrightarrow> locks_ok (snd (on_modify_memory_file fs p))"
  by (auto simp: on_modify_memory_file_def intro: locks_ok_attrs split: option.splits)

lemma locks_ok_on_flush: "locks_ok fs \<Longrightarrow> locks_ok (snd (on_flush_memory_file fs p v))"
  by (auto simp: on_flush_memory_file_def intro: locks_ok_attrs split: option.splits)

lemma counted_closed:
  assumes "counted a" "h \<in> set (open_files a)"
  shows "counted (a\<lparr>data := v, open_files := remove1 h (open_files a), locks := locks a - 1\<rparr>)"
proof -
  from assms(2) have "length (open_files a) > 0" by (cases "open_files a") auto
  then have "int (length (open_files a) - 1) = int (length (open_files a)) - 1" by arith
  with assms show ?thesis by (simp add: counted_def length_remove1)
qed

lemma locks_ok_on_close:
  assumes "locks_ok fs"
  shows "locks_ok (snd (on_close_memory_file fs h p v))"
proof (cases "get_dir_entry fs p")
  case None
  then show ?thesis using assms by (simp add: on_close_memory_file_def)
next
  case (Some e)
  let ?fs1 = "modify_entry fs p (map_attrs (\<lambda>a. a\<lparr>data := Some v\<rparr>))"
  show ?thesis
  proof (cases "h \<in> set (open_files (attrs e))")
    case False
    then show ?thesis using Some assms
      by (auto simp: on_close_memory_file_def Let_def intro: locks_ok_attrs)
  next
    case True
    let ?fs2 = "modify_entry ?fs1 p
                  (map_attrs (\<lambda>a. a\<lparr>open_files := remove1 h (open_files a)\<rparr>))"
    let ?fs3 = "modify_entry ?fs2 p (map_attrs (\<lambda>a. a\<lparr>locks := locks a - 1\<rparr>))"
    have sp: "stat fs p = Some (attrs e, contents e = None)"
      using Some by (simp add: stat_def view_def)
    then have "stat ?fs2 p \<noteq> None" by (simp add: stat_modify_attrs)
    then obtain e2 where e2: "get_dir_entry ?fs2 p = Some e2" by (auto simp: stat_None_iff)
    have res: "snd (on_close_memory_file fs h p v) = ?fs3"
      using Some True e2 by (simp add: on_close_memory_file_def Let_def unlock_dir_entry_def)
    have "counted a" if "stat ?fs3 q = Some (a, b)" for q a b
    proof (cases "q = p")
      case True
      with that sp have "a = (attrs e)\<lparr>data := Some v,
            open_files := remove1 h (open_files (attrs e)), locks := locks (attrs e) - 1\<rparr>"
        by (simp add: stat_modify_attrs)
      moreover have "counted (attrs e)" using assms sp by (auto simp: locks_ok_def)
      ultimately show ?thesis using counted_closed[OF _ \<open>h \<in> set (open_files (attrs e))\<close>]
        by simp
    next
      case False
      with that have "stat fs q = Some (a, b)" by (simp add: stat_modify_attrs)
      then show ?thesis using assms by (auto simp: locks_ok_def)
    qed
    then show ?thesis unfolding res locks_ok_def by blast
  qed
qed

lemma locks_ok_close: "locks_ok fs \<Longrightarrow> locks_ok (snd (MemoryFile_close fs h))"
  by (auto simp: MemoryFile_close_def split: option.splits sum.splits prod.splits;
      metis locks_ok_on_close snd_conv)

lemma locks_ok_write: "locks_ok fs \<Longrightarrow> locks_ok (snd (MemoryFile_write fs h d))"
  by (auto simp: MemoryFile_write_def split: option.splits sum.splits prod.splits;
      metis locks_ok_on_modify snd_conv)

lemma locks_ok_flush: "locks_ok fs \<Longrightarrow> locks_ok (snd (MemoryFile_flush fs h))"
  by (auto simp: MemoryFile_flush_def split: option.splits sum.splits prod.splits;
      metis locks_ok_on_flush snd_conv)

lemma locks_ok_read: "locks_ok fs \<Longrightarrow> locks_ok (snd (MemoryFile_read fs h n))"
  by (auto simp: MemoryFile_read_def split: option.splits sum.splits prod.splits)

lemma locks_ok_seek: "locks_ok fs \<Longrightarrow> locks_ok (snd (MemoryFile_seek fs h n))"
  by (auto simp: MemoryFile_seek_def split: option.splits sum.splits prod.splits)


lemma counted_opened:
  "counted a \<Longrightarrow>
   counted (a\<lparr>accessed_time := t, locks := locks a + 1, open_files := open_files a @ [h]\<rparr>)"
  by (simp add: counted_def)

lemma locks_ok_open_handle:
  assumes "locks_ok fs"
  shows "locks_ok (snd (open_handle fs (d @ [n]) d n v m))"
proof (cases "stat fs (d @ [n])")
  case None
  then have "get_dir_entry (modify_entry fs (d @ [n])
               (map_attrs (\<lambda>a. a\<lparr>accessed_time := now fs\<rparr>))) (d @ [n]) = None"
    by (simp add: stat_None_iff[symmetric] stat_modify_attrs)
  then show ?thesis using assms
    by (auto simp: open_handle_def Let_def lock_dir_entry_def intro: locks_ok_attrs)
next
  case (Some ab)
  obtain a b where ab: "ab = (a, b)" by (cases ab)
  from open_handle_spec[of fs d n a b v m] Some ab
  obtain s1 where s1: "open_handle fs (d @ [n]) d n v m = (Inr (Some (next_file fs)), s1)"
    "\<forall>q. stat s1 q =
         (if q = d @ [n]
          then Some (a\<lparr>accessed_time := now fs, locks := locks a + 1,
                        open_files := open_files a @ [next_file fs]\<rparr>, b)
          else stat fs q)"
    by auto
  have "counted a" using assms Some ab by (auto simp: locks_ok_def)
  then have "counted a'" if "stat s1 q = Some (a', b')" for q a' b'
    using that s1(2) assms counted_opened[where a=a and t="now fs" and h="next_file fs"]
    by (auto simp: locks_ok_def split: if_splits)
  then show ?thesis using s1(1) by (auto simp: locks_ok_def)
qed

lemma locks_ok_new_entry:
  "locks_ok fs \<Longrightarrow>
   locks_ok ((modify_entry fs d (contents_set n (make_dir_entry i t ty n')))\<lparr>next_ident := k\<rparr>)"
  by (auto intro: locks_ok_set dest: counted_make)

lemma locks_ok_open_file:
  assumes "locks_ok fs" "p \<noteq> []"
  shows "locks_ok (snd (open_file fs p m))"
proof -
  from assms(2) obtain d n where p: "p = d @ [n]" by (cases p rule: rev_cases) auto
  have old: "locks_ok (snd (open_handle fs (d @ [n]) d n v m))" for v
    using assms(1) by (rule locks_ok_open_handle)
  have new: "locks_ok (snd (open_handle
                ((modify_entry fs d
                    (contents_set n (make_dir_entry (next_ident fs) (now fs) File n)))
                 \<lparr>next_ident := next_ident fs + 1\<rparr>) (d @ [n]) d n None m))"
    by (rule locks_ok_open_handle) (rule locks_ok_new_entry[OF assms(1)])
  show ?thesis unfolding p
    using assms(1) old new
    by (auto simp: open_file_snoc split: option.splits prod.splits)
qed

lemma locks_ok_del_entry: "locks_ok fs \<Longrightarrow> locks_ok (snd (del_entry fs d n))"
  by (auto simp: del_entry_def intro: locks_ok_del split: option.splits)

lemma locks_ok_orphan_loop: "locks_ok fs \<Longrightarrow> locks_ok (snd (orphan_loop fs hs))"
proof (induction hs arbitrary: fs)
  case Nil
  then show ?case by simp
next
  case (Cons h rest)
  obtain r s where c: "MemoryFile_close fs h = (r, s)" by (cases "MemoryFile_close fs h")
  with locks_ok_close[OF Cons.prems, of h] have "locks_ok s" by simp
  from Cons.IH[OF this] Cons.prems c \<open>locks_ok s\<close> show ?case
    by (cases r) auto
qed

lemma locks_ok_remove: "locks_ok fs \<Longrightarrow> locks_ok (snd (remove fs p))"
proof -
  assume ok: "locks_ok fs"
  have o: "locks_ok (snd (orphan_files fs e))" for e
    using locks_ok_orphan_loop[OF ok] by (simp add: orphan_files_def)
  show ?thesis
  proof (cases "get_dir_entry fs p")
    case None
    then show ?thesis using ok by (simp add: remove_def)
  next
    case (Some e)
    obtain r s where c: "(if islocked e then orphan_files fs e else (Inr (), fs)) = (r, s)"
      by (cases "if islocked e then orphan_files fs e else (Inr (), fs)")
    then have "locks_ok s" using o[of e] ok by (auto split: if_splits)
    then show ?thesis using Some c locks_ok_del_entry[of s]
      by (cases r) (auto simp: remove_def case_prod_beta)
  qed
qed

lemma locks_ok_removedir_loop: "locks_ok fs \<Longrightarrow> locks_ok (snd (removedir_loop fs p))"
proof (induction p arbitrary: fs rule: rev_induct)
  case Nil
  then show ?case by (subst removedir_loop.simps) simp
next
  case (snoc n d)
  obtain r s where c: "del_entry fs d n = (r, s)" by (cases "del_entry fs d n")
  with locks_ok_del_entry[OF snoc.prems, of d n] have "locks_ok s" by simp
  from snoc.IH[OF this] c \<open>locks_ok s\<close> show ?case
    by (cases r) (auto simp: removedir_loop_snoc)
qed

lemma locks_ok_removedir: "locks_ok fs \<Longrightarrow> locks_ok (snd (removedir fs p recursive force))"
  using locks_ok_removedir_loop[of fs p] locks_ok_del_entry[of fs]
  by (auto simp: removedir_def case_prod_beta split: option.splits)

lemma locks_ok_settimes: "locks_ok fs \<Longrightarrow> locks_ok (snd (settimes fs p a m))"
  by (auto simp: settimes_def Let_def counted_def intro!: locks_ok_attrs split: option.splits)

lemma locks_ok_setxattr: "locks_ok fs \<Longrightarrow> locks_ok (snd (setxattr fs p k v))"
  by (auto simp: setxattr_def intro: locks_ok_attrs split: option.splits)

lemma locks_ok_delxattr: "locks_ok fs \<Longrightarrow> locks_ok (snd (delxattr fs p k))"
  by (auto simp: delxattr_def intro: locks_ok_attrs split: option.splits)

lemma locks_ok_tick: "locks_ok fs \<Longrightarrow> locks_ok (tick fs t)"
  by (simp add: tick_def locks_ok_root_cong[of "fs\<lparr>now := t\<rparr>" fs])


lemma locks_ok_rename_loop: "locks_ok fs \<Longrightarrow> locks_ok (snd (rename_loop fs dst hs))"
proof (induction hs arbitrary: fs)
  case Nil
  then show ?case by simp
next
  case (Cons h rest)
  obtain r s where c: "MemoryFile_flush fs h = (r, s)" by (cases "MemoryFile_flush fs h")
  with locks_ok_flush[OF Cons.prems, of h] have s: "locks_ok s" by simp
  show ?case
  proof (cases r)
    case (Inl e)
    then show ?thesis using c s by simp
  next
    case (Inr u)
    show ?thesis
    proof (cases "files s h")
      case None
      then show ?thesis using c s Inr by simp
    next
      case (Some mf)
      have "locks_ok (set_file s h (mf\<lparr>path := dst\<rparr>))" using s by simp
      from Cons.IH[OF this] show ?thesis using c Inr Some by simp
    qed
  qed
qed

lemma locks_ok_rename_move:
  assumes ok: "locks_ok fs"
    and sd: "get_dir_entry fs src_dir = Some sde" "contents sde = Some c"
      "map_of c src_name = Some moved"
  shows "locks_ok (rename_move fs src_dir src_name dst_dir dst_name moved x)"
proof -
  let ?m = "map_attrs (\<lambda>a. a\<lparr>name := dst_name\<rparr>) moved"
  have at: "get_dir_entry fs (src_dir @ src_name # r) = walk moved r" for r
    using sd by (simp add: get_append)
  have inside: "counted (attrs e)" if "walk ?m r = Some e" for r e
  proof (cases r)
    case Nil
    with that have e: "e = ?m" by simp
    have "stat fs (src_dir @ [src_name]) = Some (view moved)"
      using at[of "[]"] by (simp add: stat_def)
    then have "counted (attrs moved)" using ok by (auto simp: locks_ok_def view_def)
    then show ?thesis by (simp add: e map_attrs_def)
  next
    case (Cons k ks)
    with that have "walk moved r = Some e" by (simp add: map_attrs_def)
    then have "stat fs (src_dir @ src_name # r) = Some (view e)"
      using at[of r] by (simp add: stat_def)
    then show ?thesis using ok by (auto simp: locks_ok_def view_def)
  qed
  have 1: "locks_ok (modify_entry fs dst_dir (contents_set dst_name ?m))"
    using ok inside by (rule locks_ok_set)
  have 2: "locks_ok (modify_entry (modify_entry fs dst_dir (contents_set dst_name ?m)) dst_dir
                      (map_attrs (\<lambda>a. a\<lparr>xattrs := AList.merge (xattrs a) x\<rparr>)))"
    using 1 by (rule locks_ok_attrs) simp
  have eq: "rename_move fs src_dir src_name dst_dir dst_name moved x =
        modify_entry
          (modify_entry (modify_entry fs dst_dir (contents_set dst_name ?m)) dst_dir
             (map_attrs (\<lambda>a. a\<lparr>xattrs := AList.merge (xattrs a) x\<rparr>)))
          src_dir (contents_del src_name)"
    by (simp add: rename_move_def modify_entry_def modify_modify_same)
  show ?thesis unfolding eq using 2 by (rule locks_ok_del)
qed

lemma locks_ok_rename: "locks_ok fs \<Longrightarrow> locks_ok (snd (rename fs src dst))"
proof -
  assume ok: "locks_ok fs"
  show ?thesis
  proof (cases "get_dir_entry fs src")
    case None
    then show ?thesis using ok by (simp add: rename_def case_prod_beta)
  next
    case (Some e)
    obtain r s where c: "rename_loop fs dst (open_files (attrs e)) = (r, s)"
      by (cases "rename_loop fs dst (open_files (attrs e))")
    with locks_ok_rename_loop[OF ok, of dst "open_files (attrs e)"] have s: "locks_ok s" by simp
    show ?thesis
    proof (cases r)
      case (Inl err)
      then show ?thesis using Some c s by (simp add: rename_def case_prod_beta)
    next
      case (Inr u)
      show ?thesis using Some c s Inr locks_ok_rename_move[OF s]
        by (auto simp: rename_def case_prod_beta split: option.splits)
    qed
  qed
qed

lemma locks_ok_makedir_create:
  "locks_ok fs \<Longrightarrow> locks_ok (snd (makedir_create fs cur comps))"
proof (induction comps arbitrary: fs cur)
  case Nil
  then show ?case by simp
next
  case (Cons k ks)
  have new: "locks_ok ((modify_entry fs cur
                 (contents_set k (make_dir_entry (next_ident fs) (now fs) Dir k)))
               \<lparr>next_ident := next_ident fs + 1\<rparr>)"
    using Cons.prems by (rule locks_ok_new_entry)
  show ?case
    using Cons.prems Cons.IH[OF Cons.prems] Cons.IH[OF new]
    by (auto split: option.splits)
qed

lemma locks_ok_makedir_leaf:
  "locks_ok fs \<Longrightarrow> locks_ok (snd (makedir_leaf fs dirpath dirname allow_recreate))"
proof -
  assume ok: "locks_ok fs"
  have new: "locks_ok ((modify_entry fs dirpath
                 (contents_set dirname (make_dir_entry (next_ident fs) (now fs) Dir dirname)))
               \<lparr>next_ident := next_ident fs + 1\<rparr>)"
    using ok by (rule locks_ok_new_entry)
  show ?thesis using ok new
    by (auto simp: makedir_leaf_def split: option.splits)
qed

lemma locks_ok_makedir:
  assumes "locks_ok fs"
  shows "locks_ok (snd (makedir fs p recursive allow_recreate))"
proof -
  have leaf: "locks_ok (snd (makedir_leaf s d n allow_recreate))" if "locks_ok s" for s d n
    using that by (rule locks_ok_makedir_leaf)
  obtain r s where c: "makedir_create fs [] (iteratepath (fst (pathsplit p))) = (r, s)"
    by (cases "makedir_create fs [] (iteratepath (fst (pathsplit p)))")
  with locks_ok_makedir_create[OF assms, of "[]" "iteratepath (fst (pathsplit p))"]
  have s: "locks_ok s" by simp
  show ?thesis using assms c s leaf[OF assms] leaf[OF s]
    by (cases r) (auto simp: makedir_def case_prod_beta split: option.splits sum.splits)
qed


lemma locks_ok_perform:
  "locks_ok fs \<Longrightarrow> \<not> opens_root op \<Longrightarrow> locks_ok (perform fs op)"
  by (cases op)
     (simp_all add: locks_ok_makedir locks_ok_open_file locks_ok_remove locks_ok_removedir
        locks_ok_rename locks_ok_settimes locks_ok_setxattr locks_ok_delxattr locks_ok_write
        locks_ok_flush locks_ok_close locks_ok_read locks_ok_seek locks_ok_tick)

lemma locks_ok_run:
  "locks_ok fs \<Longrightarrow> list_all (\<lambda>op. \<not> opens_root op) ops \<Longrightarrow> locks_ok (run fs ops)"
  unfolding run_def
  by (induction ops arbitrary: fs) (simp_all add: locks_ok_perform)

text \<open>
  In every state reached from a fresh filesystem by operations none of which opens the
  root path, every File node that a path resolves to has a lock count equal to the
  number of its registered handles, and the lock count is not negative.
\<close>

lemma lock_count_invariant:
  assumes "list_all (\<lambda>op. \<not> opens_root op) ops"
    and "get_dir_entry (run (MemoryFS_init t) ops) q = Some e" "isfile_entry e"
  shows "locks (attrs e) = int (length (open_files (attrs e))) \<and> locks (attrs e) \<ge> 0"
proof -
  have "locks_ok (run (MemoryFS_init t) ops)"
    using locks_ok_init assms(1) by (rule locks_ok_run)
  moreover have "stat (run (MemoryFS_init t) ops) q = Some (attrs e, contents e = None)"
    using assms(2) by (simp add: stat_def view_def)
  ultimately have "counted (attrs e)" by (auto simp: locks_ok_def)
  then show ?thesis using assms(3) by (simp add: counted_def isfile_entry_def)
qed

lemma lock_count_invariant_example:
  "list_all (\<lambda>op. \<not> opens_root op)
     [Open [''f''] ''w'', Write 0 ''hi'', Close 0, Open [''f''] ''r'', Open [''f''] ''r'']
   \<and> map_option (\<lambda>e. (etype (attrs e), locks (attrs e), open_files (attrs e)))
       (get_dir_entry
          (run (MemoryFS_init 0)
             [Open [''f''] ''w'', Write 0 ''hi'', Close 0, Open [''f''] ''r'', Open [''f''] ''r''])
          [''f'']) = Some (File, 2, [1, 2])"
  by code_simp

end
